theory Spec2Isabelle
  imports Main
begin

section \<open>Host values, paths and errors\<close>

text \<open>
  The executor of \<^verbatim>\<open>src/execution/execute.ts\<close> works on untyped host values. The model keeps
  the distinctions the code tests for: null and undefined, \<^verbatim>\<open>Error\<close> instances, primitives,
  iterables, plain objects, promises and async iterables.
\<close>

datatype jsprim = JBool bool | JNum int | JStr string

datatype jsval = JUndefined | JNull | JPrim jsprim

datatype pathKey = Key string | Index nat

text \<open>
  Modelled from the spec: \<^verbatim>\<open>jsutils/Path\<close> is not among the sources. A path is an immutable
  linked node of parent, key and optional type name; linearization yields the keys from
  the root down and ignores the type name.
\<close>

datatype path = Path (prev: "path option") (key: pathKey) (typename: "string option")

definition addPath :: "path option \<Rightarrow> pathKey \<Rightarrow> string option \<Rightarrow> path" where
  "addPath p k t = Path p k t"

fun pathToArray :: "path \<Rightarrow> pathKey list" where
  "pathToArray (Path None k t) = [k]"
| "pathToArray (Path (Some p) k t) = pathToArray p @ [k]"

definition pathToArrayOpt :: "path option \<Rightarrow> pathKey list" where
  "pathToArrayOpt p = (case p of None \<Rightarrow> [] | Some q \<Rightarrow> pathToArray q)"

subsection \<open>The parsed selection\<close>

text \<open>
  The values \<^verbatim>\<open>getDirectiveValues\<close> yields for \<^verbatim>\<open>@stream\<close> and \<^verbatim>\<open>@defer\<close> on a node
  (\<^verbatim>\<open>./values\<close> is not among the sources, so the values are carried by the node).
\<close>

record streamDirective =
  streamIf :: jsval
  streamInitialCount :: jsval
  streamLabel :: jsval

record deferDirective =
  deferIf :: jsval
  deferLabel :: jsval

datatype fieldNode =
  FieldNode (nodeAlias: "string option") (nodeName: string) (arguments: "(string \<times> jsprim) list")
            (streamArgs: "streamDirective option") (selectionSet: "selection list")
and selection =
  FieldSelection fieldNode
| FragmentSelection (included: bool) (deferArgs: "deferDirective option")
                    (typeCondition: "string option") (fragmentSelections: "selection list")

type_synonym fieldGroup = "(string \<times> fieldNode list) list"

type_synonym patchRecord = "string option \<times> fieldGroup"

record gerror =
  message :: string
  errNodes :: "fieldNode list option"
  errPath :: "pathKey list option"

definition Error :: "string \<Rightarrow> gerror" where
  "Error m = \<lparr>message = m, errNodes = None, errPath = None\<rparr>"

definition GraphQLError :: "string \<Rightarrow> fieldNode list option \<Rightarrow> gerror" where
  "GraphQLError m ns = \<lparr>message = m, errNodes = ns, errPath = None\<rparr>"

text \<open>
  Modelled from the spec: \<^verbatim>\<open>error/locatedError\<close> is not among the sources. An error that
  already carries a path is passed on unchanged; any other error is given the field nodes and
  the linearized path of the place where it was caught.
\<close>

definition locatedError :: "gerror \<Rightarrow> fieldNode list \<Rightarrow> pathKey list \<Rightarrow> gerror" where
  "locatedError e ns p =
     (case errPath e of
        Some _ \<Rightarrow> e
      | None \<Rightarrow> e\<lparr>errNodes := (case errNodes e of None \<Rightarrow> Some ns | Some old \<Rightarrow> Some old),
                  errPath := Some p\<rparr>)"

subsection \<open>Raw values returned by resolvers\<close>

text \<open>
  \<^verbatim>\<open>GraphQLResolveInfo\<close>, restricted to the entries the executor itself reads, and the
  coerced arguments of a field.
\<close>

record resolveInfo =
  infoFieldName :: string
  infoParentType :: string
  infoPath :: path

type_synonym args = "(string \<times> jsprim) list"

datatype raw =
  RUndefined
| RNull
| RError gerror
| RPrim jsprim
| RArray "raw list"
| RObject "(string \<times> raw) list"
| RObjectType string
| RPromise nat raw
| RRejected nat gerror
| RAsyncIterable "pull list"
| RFunction "args \<Rightarrow> resolveInfo \<Rightarrow> gerror + raw"
and pull =
  PYield nat raw
| PReject nat gerror

text \<open>
  \<open>RPromise d v\<close> is a promise that fulfils with \<open>v\<close> after \<open>d\<close> units of logical time,
  \<open>RRejected d e\<close> one that rejects. An async iterable is the finite list of what its
  successive \<^verbatim>\<open>next()\<close> calls settle to; after the last entry \<^verbatim>\<open>next()\<close> reports done.
  \<open>RObjectType n\<close> is a \<^verbatim>\<open>GraphQLObjectType\<close> object used as a value.
  \<open>RFunction f\<close> is a function object: \<open>f\<close> is what a call with the coerced arguments
  and the resolve info returns or throws.
\<close>

fun isPromise :: "raw \<Rightarrow> bool" where
  "isPromise (RPromise d v) = True"
| "isPromise (RRejected d e) = True"
| "isPromise _ = False"

fun errorInstance :: "raw \<Rightarrow> gerror option" where
  "errorInstance (RError e) = Some e"
| "errorInstance _ = None"

fun asyncIterator :: "raw \<Rightarrow> pull list option" where
  "asyncIterator (RAsyncIterable i) = Some i"
| "asyncIterator _ = None"

fun iterableItems :: "raw \<Rightarrow> raw list option" where
  "iterableItems (RArray items) = Some items"
| "iterableItems _ = None"

fun isNullish :: "raw \<Rightarrow> bool" where
  "isNullish RUndefined = True"
| "isNullish RNull = True"
| "isNullish _ = False"

fun truthy :: "raw \<Rightarrow> bool" where
  "truthy RUndefined = False"
| "truthy RNull = False"
| "truthy (RPrim (JBool b)) = b"
| "truthy (RPrim (JNum n)) = (n \<noteq> 0)"
| "truthy (RPrim (JStr s)) = (s \<noteq> [])"
| "truthy _ = True"

fun isObjectLike :: "raw \<Rightarrow> bool" where
  "isObjectLike RUndefined = False"
| "isObjectLike RNull = False"
| "isObjectLike (RPrim p) = False"
| "isObjectLike (RFunction f) = False"
| "isObjectLike _ = True"

subsection \<open>Promises with a logical settle time\<close>

datatype 'a promise = Unsettled | Fulfilled nat 'a | Rejected nat gerror

datatype 'a promiseOrValue = Value 'a | Promise "'a promise"

fun settleRaw :: "nat \<Rightarrow> raw \<Rightarrow> raw promise" where
  "settleRaw now (RPromise d v) = settleRaw (now + d) v"
| "settleRaw now (RRejected d e) = Rejected (now + d) e"
| "settleRaw now v = Fulfilled now v"

fun isPending :: "'a promiseOrValue \<Rightarrow> bool" where
  "isPending (Promise p) = True"
| "isPending (Value v) = False"


subsection \<open>Completed values\<close>

datatype cval =
  CNull
| CLeaf raw
| CList "cval list"
| CObject "(string \<times> cval) list"

section \<open>Schema and execution context\<close>

type_synonym fieldResolverFn = "raw \<Rightarrow> args \<Rightarrow> resolveInfo \<Rightarrow> gerror + raw"

type_synonym predicateFn = "raw \<Rightarrow> resolveInfo \<Rightarrow> gerror + raw"

text \<open>
  Output types. A leaf type carries its \<^verbatim>\<open>serialize\<close>, an abstract type its optional
  \<^verbatim>\<open>resolveType\<close>. Object types may be recursive, so they are referred to by name and
  their field table and \<^verbatim>\<open>isTypeOf\<close> are read through the schema.
\<close>

datatype gtype =
  NonNullT (ofType: gtype)
| ListT (ofType: gtype)
| LeafT string "raw \<Rightarrow> gerror + raw"
| AbstractT string "predicateFn option"
| ObjectT string

fun isNonNullType :: "gtype \<Rightarrow> bool" where
  "isNonNullType (NonNullT t) = True"
| "isNonNullType _ = False"

fun isListType :: "gtype \<Rightarrow> bool" where
  "isListType (ListT t) = True"
| "isListType _ = False"

record fieldDef =
  fdName :: string
  fdType :: gtype
  fdResolve :: "fieldResolverFn option"

datatype operationType = QUERY | MUTATION | SUBSCRIPTION

datatype typeKind =
  ObjectKind | InterfaceKind | UnionKind | ScalarKind | EnumKind | InputObjectKind

text \<open>
  The schema surface the executor consumes. The three introspection meta-field
  definitions and the outcome of \<^verbatim>\<open>assertValidSchema\<close> come from modules that are not
  among the sources and are parameters of the model.
\<close>

record schema =
  getRootType :: "operationType \<Rightarrow> string option"
  getType :: "string \<Rightarrow> typeKind option"
  getPossibleTypes :: "string \<Rightarrow> string list"
  isSubType :: "string \<Rightarrow> string \<Rightarrow> bool"
  getFields :: "string \<Rightarrow> string \<Rightarrow> fieldDef option"
  isTypeOf :: "string \<Rightarrow> predicateFn option"
  SchemaMetaFieldDef :: fieldDef
  TypeMetaFieldDef :: fieldDef
  TypeNameMetaFieldDef :: fieldDef
  schemaValidationErrors :: "gerror list"

definition getQueryType :: "schema \<Rightarrow> string option" where
  "getQueryType s = getRootType s QUERY"

record operationDefinitionNode =
  opName :: "string option"
  operation :: operationType
  variableDefinitions :: "string list option"
  opSelectionSet :: "selection list"

record fragmentDefinitionNode =
  fragName :: string
  fragTypeCondition :: string
  fragSelectionSet :: "selection list"

datatype definitionNode =
  OperationDefinition operationDefinitionNode
| FragmentDefinition fragmentDefinitionNode
| OtherDefinition

record exeContext =
  ctxSchema :: schema
  ctxFragments :: "string \<Rightarrow> fragmentDefinitionNode option"
  ctxRootValue :: raw
  ctxOperation :: operationDefinitionNode
  ctxVariableValues :: "(string \<times> raw) list"
  ctxFieldResolver :: fieldResolverFn
  ctxTypeResolver :: "raw \<Rightarrow> resolveInfo \<Rightarrow> string \<Rightarrow> gerror + raw"
  getArgumentValues :: "fieldDef \<Rightarrow> fieldNode \<Rightarrow> gerror + args"

text \<open>
  \<open>getArgumentValues\<close> (\<^verbatim>\<open>./values\<close>, not among the sources) is a parameter: it
  yields the coerced arguments of a field node or throws.
\<close>

section \<open>Mutable state of one execution\<close>

datatype 'a iteratorResult = IterValue 'a | IterDone

text \<open>
  \<^verbatim>\<open>DispatcherResult\<close>. Error arrays are shared by reference in the source, so a payload
  holds the address of its error list, present only when the list was non-empty at the
  moment the payload was built.
\<close>

record dispatcherResult =
  drData :: cval
  drPath :: "pathKey list"
  drLabel :: "string option"
  drErrors :: "nat option"

record payloadPromise =
  pid :: nat
  pushedAt :: nat
  settlement :: "dispatcherResult iteratorResult promise"

datatype event = ResolverCalled "pathKey list" nat

text \<open>
  Error arrays live in a store: address \<open>0\<close> is \<^verbatim>\<open>exeContext.errors\<close>, every
  \<^verbatim>\<open>const errors = []\<close> allocates the next address. \<open>subsequentPayloads\<close> is the
  dispatcher's queue; each promise pushed gets a fresh identity and the time of the push.
  \<open>events\<close> records every call of a resolve function with the path of its field and the
  logical time of the call.

  A \<^verbatim>\<open>then\<close> callback is evaluated when the model reaches the call that installs it, so
  the state holds effects of later logical times already. \<open>errorTimes\<close> keeps, for every
  entry of an error array, the time at which it was pushed; \<open>errorsAt t st r\<close> is the
  array at address \<open>r\<close> as it stands at time \<open>t\<close>: the entries pushed by then, in the
  order of their times.
\<close>

record exeState =
  errorLists :: "nat \<Rightarrow> gerror list"
  errorTimes :: "nat \<Rightarrow> nat list"
  nextErrorList :: nat
  subsequentPayloads :: "payloadPromise list"
  nextPid :: nat
  events :: "event list"

definition initialState :: exeState where
  "initialState =
     \<lparr>errorLists = (\<lambda>_. []), errorTimes = (\<lambda>_. []), nextErrorList = 1,
      subsequentPayloads = [], nextPid = 0, events = []\<rparr>"

definition pushError :: "nat \<Rightarrow> nat \<Rightarrow> gerror \<Rightarrow> exeState \<Rightarrow> exeState" where
  "pushError r t e st =
     st\<lparr>errorLists := (errorLists st)(r := errorLists st r @ [e]),
        errorTimes := (errorTimes st)(r := errorTimes st r @ [t])\<rparr>"

definition errorsAt :: "nat \<Rightarrow> exeState \<Rightarrow> nat \<Rightarrow> gerror list" where
  "errorsAt t st r =
     map snd (sort_key fst (filter (\<lambda>te. fst te \<le> t) (zip (errorTimes st r) (errorLists st r))))"

definition newErrorList :: "exeState \<Rightarrow> nat \<times> exeState" where
  "newErrorList st =
     (nextErrorList st,
      st\<lparr>errorLists := (errorLists st)(nextErrorList st := []),
         errorTimes := (errorTimes st)(nextErrorList st := []),
         nextErrorList := Suc (nextErrorList st)\<rparr>)"

definition pushPayload ::
  "nat \<Rightarrow> dispatcherResult iteratorResult promise \<Rightarrow> exeState \<Rightarrow> nat \<times> exeState" where
  "pushPayload now p st =
     (nextPid st,
      st\<lparr>subsequentPayloads :=
           subsequentPayloads st @ [\<lparr>pid = nextPid st, pushedAt = now, settlement = p\<rparr>],
         nextPid := Suc (nextPid st)\<rparr>)"

definition settlePayload ::
  "nat \<Rightarrow> dispatcherResult iteratorResult promise \<Rightarrow> exeState \<Rightarrow> exeState" where
  "settlePayload i p st =
     st\<lparr>subsequentPayloads :=
          map (\<lambda>q. if pid q = i then q\<lparr>settlement := p\<rparr> else q) (subsequentPayloads st)\<rparr>"

definition logEvent :: "event \<Rightarrow> exeState \<Rightarrow> exeState" where
  "logEvent e st = st\<lparr>events := events st @ [e]\<rparr>"

section \<open>Field errors\<close>

text \<open>
  \<open>errors\<close> is the address of the error array the caller handed over, \<open>now\<close> the time
  of the call.
\<close>

definition handleFieldError ::
  "gerror \<Rightarrow> gtype \<Rightarrow> nat \<Rightarrow> nat \<Rightarrow> exeState \<Rightarrow> (gerror + cval) \<times> exeState" where
  "handleFieldError error returnType errors now st =
     (if isNonNullType returnType then (Inl error, st)
      else (Inr CNull, pushError errors now error st))"


section \<open>Field collection\<close>

text \<open>
  Modelled from the spec: \<^verbatim>\<open>./collectFields\<close> is not among the sources. The selection
  set is walked in source order. A plain field is appended to the group under its response
  name (alias or name). A fragment (inline, or a spread whose definition has been looked up)
  that \<^verbatim>\<open>@skip\<close>/\<^verbatim>\<open>@include\<close> exclude is skipped; one that carries an active
  \<^verbatim>\<open>@defer\<close> is not descended into inline but emitted as a patch record with its own
  field group and optional label; any other fragment is merged into the group in progress
  when its type condition applies to the current type.
\<close>

definition responseName :: "fieldNode \<Rightarrow> string" where
  "responseName n = (case nodeAlias n of Some a \<Rightarrow> a | None \<Rightarrow> nodeName n)"

fun groupAppend :: "string \<Rightarrow> fieldNode \<Rightarrow> fieldGroup \<Rightarrow> fieldGroup" where
  "groupAppend k n [] = [(k, [n])]"
| "groupAppend k n ((k', ns) # g) =
     (if k = k' then (k', ns @ [n]) # g else (k', ns) # groupAppend k n g)"

definition getDeferValues :: "deferDirective option \<Rightarrow> string option option" where
  "getDeferValues d =
     (case d of
        None \<Rightarrow> None
      | Some v \<Rightarrow>
          if deferIf v = JPrim (JBool False) then None
          else Some (case deferLabel v of JPrim (JStr l) \<Rightarrow> Some l | _ \<Rightarrow> None))"

definition doesFragmentConditionMatch :: "schema \<Rightarrow> string option \<Rightarrow> string \<Rightarrow> bool" where
  "doesFragmentConditionMatch s cond t =
     (case cond of None \<Rightarrow> True | Some c \<Rightarrow> c = t \<or> isSubType s c t)"

fun collectFieldsImpl ::
  "schema \<Rightarrow> string \<Rightarrow> selection list \<Rightarrow> fieldGroup \<times> patchRecord list
     \<Rightarrow> fieldGroup \<times> patchRecord list" where
  "collectFieldsImpl s t [] acc = acc"
| "collectFieldsImpl s t (FieldSelection n # sels) acc =
     collectFieldsImpl s t sels (groupAppend (responseName n) n (fst acc), snd acc)"
| "collectFieldsImpl s t (FragmentSelection incl d cond sub # sels) acc =
     (if \<not> incl then collectFieldsImpl s t sels acc
      else
        (case getDeferValues d of
           Some label \<Rightarrow>
             (let inner = collectFieldsImpl s t sub ([], snd acc)
              in collectFieldsImpl s t sels (fst acc, snd inner @ [(label, fst inner)]))
         | None \<Rightarrow>
             if doesFragmentConditionMatch s cond t
             then (let inner = collectFieldsImpl s t sub acc in collectFieldsImpl s t sels inner)
             else collectFieldsImpl s t sels acc))"

definition collectFields ::
  "schema \<Rightarrow> string \<Rightarrow> selection list \<Rightarrow> fieldGroup \<times> patchRecord list" where
  "collectFields s t sels = collectFieldsImpl s t sels ([], [])"

fun collectSubfieldsFrom ::
  "schema \<Rightarrow> string \<Rightarrow> fieldNode list \<Rightarrow> fieldGroup \<times> patchRecord list
     \<Rightarrow> fieldGroup \<times> patchRecord list" where
  "collectSubfieldsFrom s t [] acc = acc"
| "collectSubfieldsFrom s t (n # ns) acc =
     collectSubfieldsFrom s t ns (collectFieldsImpl s t (selectionSet n) acc)"

definition collectSubfields ::
  "schema \<Rightarrow> string \<Rightarrow> fieldNode list \<Rightarrow> fieldGroup \<times> patchRecord list" where
  "collectSubfields s t fieldNodes = collectSubfieldsFrom s t fieldNodes ([], [])"

subsection \<open>Weights of selections\<close>

text \<open>
  Every collected field node stems from the selection set of one of the parent nodes, so
  the collected groups weigh less than the parents. This is what makes the recursion of
  the executor end on every input.
\<close>

fun nodeWeight :: "fieldNode \<Rightarrow> nat"
  and selectionWeight :: "selection \<Rightarrow> nat" where
  "nodeWeight (FieldNode a n as st sels) = Suc (sum_list (map selectionWeight sels))"
| "selectionWeight (FieldSelection n) = Suc (nodeWeight n)"
| "selectionWeight (FragmentSelection incl d cond sels) = Suc (sum_list (map selectionWeight sels))"

definition nodesWeight :: "fieldNode list \<Rightarrow> nat" where
  "nodesWeight ns = sum_list (map nodeWeight ns)"

definition groupWeight :: "fieldGroup \<Rightarrow> nat" where
  "groupWeight g = sum_list (map (\<lambda>kv. Suc (nodesWeight (snd kv))) g)"

definition patchesWeight :: "patchRecord list \<Rightarrow> nat" where
  "patchesWeight ps = sum_list (map (\<lambda>p. Suc (groupWeight (snd p))) ps)"

fun typeSize :: "gtype \<Rightarrow> nat" where
  "typeSize (NonNullT t) = Suc (typeSize t)"
| "typeSize (ListT t) = Suc (typeSize t)"
| "typeSize _ = 1"


lemma groupWeight_groupAppend:
  "groupWeight (groupAppend k n g) \<le> groupWeight g + Suc (nodeWeight n)"
  by (induction g) (auto simp: groupWeight_def nodesWeight_def)

lemma collectFieldsImpl_weight:
  "groupWeight (fst (collectFieldsImpl s t sels acc)) +
   patchesWeight (snd (collectFieldsImpl s t sels acc))
     \<le> groupWeight (fst acc) + patchesWeight (snd acc) + sum_list (map selectionWeight sels)"
proof (induction s t sels acc rule: collectFieldsImpl.induct)
  case (1 s t acc)
  then show ?case by simp
next
  case (2 s t n sels acc)
  have "groupWeight (groupAppend (responseName n) n (fst acc))
          \<le> groupWeight (fst acc) + Suc (nodeWeight n)"
    by (rule groupWeight_groupAppend)
  with 2 show ?case by simp
next
  case (3 s t incl d cond sub sels acc)
  let ?whole = "collectFieldsImpl s t (FragmentSelection incl d cond sub # sels) acc"
  show ?case
  proof (cases incl)
    case False
    with 3 show ?thesis by simp
  next
    case True
    show ?thesis
    proof (cases "getDeferValues d")
      case (Some label)
      let ?inner = "collectFieldsImpl s t sub ([], snd acc)"
      have a: "groupWeight (fst ?inner) + patchesWeight (snd ?inner)
                 \<le> patchesWeight (snd acc) + sum_list (map selectionWeight sub)"
        using 3 True Some by (simp add: groupWeight_def)
      have b: "groupWeight (fst ?whole) + patchesWeight (snd ?whole)
                 \<le> groupWeight (fst acc) + patchesWeight (snd ?inner @ [(label, fst ?inner)]) +
                    sum_list (map selectionWeight sels)"
        using 3 True Some by (simp add: Let_def)
      show ?thesis using a b by (simp add: patchesWeight_def)
    next
      case None
      show ?thesis
      proof (cases "doesFragmentConditionMatch s cond t")
        case m: True
        let ?inner = "collectFieldsImpl s t sub acc"
        have a: "groupWeight (fst ?inner) + patchesWeight (snd ?inner)
                   \<le> groupWeight (fst acc) + patchesWeight (snd acc) +
                      sum_list (map selectionWeight sub)"
          using 3 True None m by simp
        have b: "groupWeight (fst ?whole) + patchesWeight (snd ?whole)
                   \<le> groupWeight (fst ?inner) + patchesWeight (snd ?inner) +
                      sum_list (map selectionWeight sels)"
          using 3 True None m by (simp add: Let_def)
        show ?thesis using a b by simp
      next
        case m: False
        with 3 True None show ?thesis by simp
      qed
    qed
  qed
qed

lemma collectSubfieldsFrom_weight:
  "groupWeight (fst (collectSubfieldsFrom s t ns acc)) +
   patchesWeight (snd (collectSubfieldsFrom s t ns acc)) + length ns
     \<le> groupWeight (fst acc) + patchesWeight (snd acc) + nodesWeight ns"
proof (induction ns arbitrary: acc)
  case Nil
  then show ?case by (simp add: nodesWeight_def)
next
  case (Cons n ns)
  obtain a nm as st sels where n: "n = FieldNode a nm as st sels" by (cases n)
  have "groupWeight (fst (collectFieldsImpl s t sels acc)) +
        patchesWeight (snd (collectFieldsImpl s t sels acc))
          \<le> groupWeight (fst acc) + patchesWeight (snd acc) + sum_list (map selectionWeight sels)"
    by (rule collectFieldsImpl_weight)
  with Cons[of "collectFieldsImpl s t sels acc"] show ?case
    by (simp add: n nodesWeight_def)
qed

lemma collectSubfields_weight:
  "groupWeight (fst (collectSubfields s t ns)) + patchesWeight (snd (collectSubfields s t ns))
     \<le> nodesWeight ns"
  using collectSubfieldsFrom_weight[of s t ns "([], [])"]
  by (simp add: collectSubfields_def groupWeight_def patchesWeight_def)

section \<open>Helpers of the executor\<close>

record streamValues =
  initialCount :: "int option"
  streamLabelValue :: "string option"

text \<open>
  \<open>getStreamValues\<close> inspects only the first field node. On an empty node list
  \<^verbatim>\<open>fieldNodes[0]\<close> is undefined and reading its directives throws.
\<close>

definition getStreamValues :: "fieldNode list \<Rightarrow> gerror + streamValues option" where
  "getStreamValues fieldNodes =
     (case fieldNodes of
        [] \<Rightarrow> Inl (Error ''TypeError: Cannot read properties of undefined'')
      | node # _ \<Rightarrow>
          (case streamArgs node of
             None \<Rightarrow> Inr None
           | Some v \<Rightarrow>
               if streamIf v = JPrim (JBool False) then Inr None
               else Inr (Some
                 \<lparr>initialCount = (case streamInitialCount v of JPrim (JNum n) \<Rightarrow> Some n | _ \<Rightarrow> None),
                  streamLabelValue = (case streamLabel v of JPrim (JStr l) \<Rightarrow> Some l | _ \<Rightarrow> None)\<rparr>)))"

text \<open>
  The test \<^verbatim>\<open>stream && typeof stream.initialCount === 'number' && index >= stream.initialCount\<close>.
\<close>

definition streamsFrom :: "streamValues option \<Rightarrow> nat \<Rightarrow> bool" where
  "streamsFrom stream index =
     (case stream of
        None \<Rightarrow> False
      | Some sv \<Rightarrow> (case initialCount sv of None \<Rightarrow> False | Some n \<Rightarrow> n \<le> int index))"

definition streamLabelOf :: "streamValues option \<Rightarrow> string option" where
  "streamLabelOf stream = (case stream of None \<Rightarrow> None | Some sv \<Rightarrow> streamLabelValue sv)"

text \<open>
  \<open>createPatchResult\<close> is called at time \<open>now\<close>; the payload has an \<^verbatim>\<open>errors\<close> entry
  when the array is non-empty at that moment.
\<close>

definition createPatchResult ::
  "cval \<Rightarrow> string option \<Rightarrow> path option \<Rightarrow> nat \<Rightarrow> nat \<Rightarrow> exeState \<Rightarrow> dispatcherResult" where
  "createPatchResult d label p errors now st =
     \<lparr>drData = d, drPath = pathToArrayOpt p, drLabel = label,
      drErrors = (if length (errorsAt now st errors) > 0 then Some errors else None)\<rparr>"

text \<open>
  Modelled from the spec: \<^verbatim>\<open>jsutils/inspect\<close> is not among the sources; it is used for
  error messages only. Strings are quoted, numbers are printed in decimal notation, arrays
  and the own properties of plain objects are listed, any other object prints as
  \<^verbatim>\<open>{}\<close>; the limit on the nesting depth is not modelled.
\<close>

fun showNat :: "nat \<Rightarrow> string" where
  "showNat n =
     (if n < 10 then [char_of (48 + n)] else showNat (n div 10) @ [char_of (48 + n mod 10)])"

declare showNat.simps [simp del]

definition showInt :: "int \<Rightarrow> string" where
  "showInt i = (if i < 0 then ''-'' @ showNat (nat (- i)) else showNat (nat i))"

fun joinWith :: "string \<Rightarrow> string list \<Rightarrow> string" where
  "joinWith sep [] = []"
| "joinWith sep [x] = x"
| "joinWith sep (x # y # ys) = x @ sep @ joinWith sep (y # ys)"

fun inspect :: "raw \<Rightarrow> string"
  and inspectItems :: "raw list \<Rightarrow> string list"
  and inspectProps :: "(string \<times> raw) list \<Rightarrow> string list" where
  "inspect RUndefined = ''undefined''"
| "inspect RNull = ''null''"
| "inspect (RPrim (JBool b)) = (if b then ''true'' else ''false'')"
| "inspect (RPrim (JNum n)) = showInt n"
| "inspect (RPrim (JStr s)) = [CHR 0x22] @ s @ [CHR 0x22]"
| "inspect (RArray items) = ''['' @ joinWith '', '' (inspectItems items) @ '']''"
| "inspect (RObject props) =
     (if props = [] then ''{}'' else ''{ '' @ joinWith '', '' (inspectProps props) @ '' }'')"
| "inspect (RFunction f) = ''[function]''"
| "inspect (RError e) = ''{}''"
| "inspect (RObjectType n) = n"
| "inspect (RPromise d v) = ''{}''"
| "inspect (RRejected d e) = ''{}''"
| "inspect (RAsyncIterable i) = ''{}''"
| "inspectItems [] = []"
| "inspectItems (v # vs) = inspect v # inspectItems vs"
| "inspectProps [] = []"
| "inspectProps (kv # kvs) = (fst kv @ '': '' @ inspect (snd kv)) # inspectProps kvs"

text \<open>
  \<open>completeLeafValue\<close> hands on what \<^verbatim>\<open>serialize\<close> returned, unless that is null or
  undefined. \<open>leafResult\<close> is how \<open>completeValue\<close> and its callers see that value: a
  thenable counts as a promise of the value it settles to.
\<close>

definition completeLeafValue :: "string \<Rightarrow> (raw \<Rightarrow> gerror + raw) \<Rightarrow> raw \<Rightarrow> gerror + raw" where
  "completeLeafValue name serialize result =
     (case serialize result of
        Inl e \<Rightarrow> Inl e
      | Inr serializedResult \<Rightarrow>
          if isNullish serializedResult
          then Inl (Error (''Expected `'' @ name @ ''.serialize('' @ inspect result @
                 '')` to return non-nullable value, returned: '' @ inspect serializedResult))
          else Inr serializedResult)"

definition toLeaf :: "raw \<Rightarrow> cval" where
  "toLeaf v = (if isNullish v then CNull else CLeaf v)"

definition getFieldDef :: "schema \<Rightarrow> string \<Rightarrow> fieldNode \<Rightarrow> fieldDef option" where
  "getFieldDef s parentType fieldNode =
     (let fieldName = nodeName fieldNode in
      if fieldName = fdName (SchemaMetaFieldDef s) \<and> getQueryType s = Some parentType
      then Some (SchemaMetaFieldDef s)
      else if fieldName = fdName (TypeMetaFieldDef s) \<and> getQueryType s = Some parentType
      then Some (TypeMetaFieldDef s)
      else if fieldName = fdName (TypeNameMetaFieldDef s)
      then Some (TypeNameMetaFieldDef s)
      else getFields s parentType fieldName)"

definition buildResolveInfo ::
  "exeContext \<Rightarrow> fieldDef \<Rightarrow> fieldNode list \<Rightarrow> string \<Rightarrow> path \<Rightarrow> resolveInfo" where
  "buildResolveInfo ctx fd fieldNodes parentType p =
     \<lparr>infoFieldName = fdName fd, infoParentType = parentType, infoPath = p\<rparr>"

definition cannotReturnNull :: "resolveInfo \<Rightarrow> gerror" where
  "cannotReturnNull info =
     Error (''Cannot return null for non-nullable field '' @ infoParentType info @ ''.'' @
            infoFieldName info @ ''.'')"

definition invalidReturnTypeError :: "string \<Rightarrow> fieldNode list \<Rightarrow> gerror" where
  "invalidReturnTypeError returnType fieldNodes =
     GraphQLError (''Expected value of type \"'' @ returnType @ ''\" but got another value.'')
       (Some fieldNodes)"

definition ensureValidRuntimeType ::
  "raw \<Rightarrow> exeContext \<Rightarrow> string \<Rightarrow> fieldNode list \<Rightarrow> resolveInfo \<Rightarrow> gerror + string" where
  "ensureValidRuntimeType runtimeTypeName ctx returnType fieldNodes info =
     (if isNullish runtimeTypeName then
        Inl (GraphQLError (''Abstract type \"'' @ returnType @
               ''\" must resolve to an Object type at runtime for field \"'' @
               infoParentType info @ ''.'' @ infoFieldName info @ ''\".'') (Some fieldNodes))
      else
        (case runtimeTypeName of
           RObjectType n \<Rightarrow>
             Inl (GraphQLError
               ''Support for returning GraphQLObjectType from resolveType was removed in graphql-js@16.0.0 please return type name instead.''
               None)
         | RPrim (JStr name) \<Rightarrow>
             (case getType (ctxSchema ctx) name of
                None \<Rightarrow>
                  Inl (GraphQLError (''Abstract type \"'' @ returnType @
                         ''\" was resolved to a type \"'' @ name @
                         ''\" that does not exist inside the schema.'') (Some fieldNodes))
              | Some kind \<Rightarrow>
                  if kind \<noteq> ObjectKind then
                    Inl (GraphQLError (''Abstract type \"'' @ returnType @
                           ''\" was resolved to a non-object type \"'' @ name @ ''\".'')
                         (Some fieldNodes))
                  else if \<not> isSubType (ctxSchema ctx) returnType name then
                    Inl (GraphQLError (''Runtime Object type \"'' @ name @
                           ''\" is not a possible type for \"'' @ returnType @ ''\".'')
                         (Some fieldNodes))
                  else Inr name)
         | _ \<Rightarrow>
             Inl (GraphQLError (''Abstract type \"'' @ returnType @
                    ''\" must resolve to an Object type at runtime for field \"'' @
                    infoParentType info @ ''.'' @ infoFieldName info @ ''\" with a value that is not a string.'')
                  None)))"

subsection \<open>Combining promises\<close>

text \<open>
  Modelled from the spec: \<^verbatim>\<open>jsutils/promiseForObject\<close> is not among the sources; it and
  the host's \<^verbatim>\<open>Promise.all\<close> are the \<open>mapObject\<close> and \<open>all\<close> of the value monad. The
  combined promise rejects with the earliest rejection among the inputs; otherwise it
  fulfils once every input has, at the latest of their times.
\<close>

fun firstRejection :: "'a promiseOrValue list \<Rightarrow> (nat \<times> gerror) option" where
  "firstRejection [] = None"
| "firstRejection (Promise (Rejected t e) # xs) =
     (case firstRejection xs of
        None \<Rightarrow> Some (t, e)
      | Some later \<Rightarrow> if fst later < t then Some later else Some (t, e))"
| "firstRejection (x # xs) = firstRejection xs"

fun allFulfilled :: "nat \<Rightarrow> 'a promiseOrValue list \<Rightarrow> (nat \<times> 'a list) option" where
  "allFulfilled now [] = Some (now, [])"
| "allFulfilled now (Value v # xs) =
     (case allFulfilled now xs of None \<Rightarrow> None | Some r \<Rightarrow> Some (fst r, v # snd r))"
| "allFulfilled now (Promise (Fulfilled t v) # xs) =
     (case allFulfilled now xs of None \<Rightarrow> None | Some r \<Rightarrow> Some (max t (fst r), v # snd r))"
| "allFulfilled now (x # xs) = None"

definition promiseAll :: "nat \<Rightarrow> 'a promiseOrValue list \<Rightarrow> 'a list promise" where
  "promiseAll now xs =
     (case firstRejection xs of
        Some r \<Rightarrow> Rejected (fst r) (snd r)
      | None \<Rightarrow>
          (case allFulfilled now xs of
             Some r \<Rightarrow> Fulfilled (fst r) (snd r)
           | None \<Rightarrow> Unsettled))"

fun mapPromise :: "('a \<Rightarrow> 'b) \<Rightarrow> 'a promise \<Rightarrow> 'b promise" where
  "mapPromise f Unsettled = Unsettled"
| "mapPromise f (Fulfilled t v) = Fulfilled t (f v)"
| "mapPromise f (Rejected t e) = Rejected t e"

definition promiseForObject :: "nat \<Rightarrow> (string \<times> cval promiseOrValue) list \<Rightarrow> cval promise" where
  "promiseForObject now results =
     mapPromise (\<lambda>vs. CObject (zip (map fst results) vs)) (promiseAll now (map snd results))"

definition leafResult :: "nat \<Rightarrow> raw \<Rightarrow> cval promiseOrValue" where
  "leafResult now v =
     (if isPromise v then Promise (mapPromise toLeaf (settleRaw now v)) else Value (toLeaf v))"

fun readyValues :: "'a promiseOrValue list \<Rightarrow> 'a list" where
  "readyValues [] = []"
| "readyValues (Value v # xs) = v # readyValues xs"
| "readyValues (Promise p # xs) = readyValues xs"

fun objSet :: "string \<Rightarrow> 'a \<Rightarrow> (string \<times> 'a) list \<Rightarrow> (string \<times> 'a) list" where
  "objSet k v [] = [(k, v)]"
| "objSet k v ((k', v') # r) = (if k = k' then (k, v) # r else (k', v') # objSet k v r)"

text \<open>
  What a \<^verbatim>\<open>then\<close> callback that ran at time \<open>t\<close> makes of the promise it belongs to: a
  throw rejects it, a plain value fulfils it, a returned promise is adopted.
\<close>

fun settleWith :: "nat \<Rightarrow> gerror + 'a promiseOrValue \<Rightarrow> 'a promise" where
  "settleWith t (Inl e) = Rejected t e"
| "settleWith t (Inr (Value v)) = Fulfilled t v"
| "settleWith t (Inr (Promise p)) = p"

text \<open>
  The rejection handler \<^verbatim>\<open>then(undefined, rawError => handleFieldError(locatedError(...), ...))\<close>.
\<close>

definition catchFieldError ::
  "fieldNode list \<Rightarrow> pathKey list \<Rightarrow> gtype \<Rightarrow> nat \<Rightarrow> cval promise \<Rightarrow> exeState
     \<Rightarrow> cval promise \<times> exeState" where
  "catchFieldError fieldNodes p returnType errors pr st =
     (case pr of
        Rejected t rawError \<Rightarrow>
          (case handleFieldError (locatedError rawError fieldNodes p) returnType errors t st of
             (Inl e, st') \<Rightarrow> (Rejected t e, st')
           | (Inr v, st') \<Rightarrow> (Fulfilled t v, st'))
      | _ \<Rightarrow> (pr, st))"

subsection \<open>Dispatcher: scheduling patches\<close>

definition patchPayload ::
  "string option \<Rightarrow> path option \<Rightarrow> nat \<Rightarrow> cval promise \<Rightarrow> exeState
     \<Rightarrow> dispatcherResult iteratorResult promise" where
  "patchPayload label p errors pr st =
     (case pr of
        Fulfilled t d \<Rightarrow> Fulfilled t (IterValue (createPatchResult d label p errors t st))
      | Rejected t e \<Rightarrow> Rejected t e
      | Unsettled \<Rightarrow> Unsettled)"

definition addFields ::
  "cval promiseOrValue \<Rightarrow> nat \<Rightarrow> string option \<Rightarrow> path option \<Rightarrow> nat \<Rightarrow> exeState \<Rightarrow> exeState" where
  "addFields promiseOrData errors label p now st =
     snd (pushPayload now
            (patchPayload label p errors
               (case promiseOrData of Value d \<Rightarrow> Fulfilled now d | Promise pr \<Rightarrow> pr) st) st)"

type_synonym 'a completion = "(gerror + 'a promiseOrValue) \<times> exeState"

text \<open>
  \<^verbatim>\<open>resolve\<close> of the promise built in \<open>completeAsyncIteratorValue\<close>: only the first call
  counts. It records the time, the array as it stands and \<^verbatim>\<open>containsPromise\<close>, which
  the continuation of the promise reads at that time.
\<close>

definition resolveOnce ::
  "nat \<Rightarrow> cval promiseOrValue list \<Rightarrow> bool \<Rightarrow> (nat \<times> cval promiseOrValue list \<times> bool) option
     \<Rightarrow> (nat \<times> cval promiseOrValue list \<times> bool) option" where
  "resolveOnce t completedResults containsPromise resolved =
     (case resolved of None \<Rightarrow> Some (t, completedResults, containsPromise) | Some r \<Rightarrow> Some r)"


section \<open>The executor\<close>

text \<open>
  The functions of \<^verbatim>\<open>execute.ts\<close> that call each other, as one recursive definition.
  Every function takes the address \<open>errors\<close> of the error array it was handed, the
  logical time \<open>now\<close> at which it runs and the state, and returns the state it leaves. A
  result is \<open>Inl e\<close> when the function throws, \<open>Inr (Value v)\<close> when it returns a plain
  value and \<open>Inr (Promise p)\<close> when it returns a promise. A \<^verbatim>\<open>then\<close> callback is run at
  the time its promise settles; its effects are entered into the state at once, so for
  several pending branches the state lists the effects branch by branch.

  \<open>executeFields\<close> carries its loop variable \<open>results\<close>; callers start it with the empty
  object. \<open>completeListItems\<close> is the \<^verbatim>\<open>for\<close> loop of \<open>completeListValue\<close>,
  \<open>asyncNext\<close> the local function \<^verbatim>\<open>next\<close> of \<open>completeAsyncIteratorValue\<close>,
  \<open>executeSubPatches\<close> the loop over \<^verbatim>\<open>subPatches\<close> of \<open>collectAndExecuteSubfields\<close>;
  \<open>addValue\<close> and \<open>addAsyncIteratorValue\<close> are the dispatcher's methods.
  \<open>asyncNext\<close> returns the final contents of the array \<^verbatim>\<open>completedResults\<close> and what
  the first call of \<^verbatim>\<open>resolve\<close> recorded: the time, the array as it stood and
  \<^verbatim>\<open>containsPromise\<close>. The promise of \<open>completeAsyncIteratorValue\<close> fulfils at that
  time with the array as it stood. (The array is handed on by reference, so entries pushed
  later show in the same array object afterwards; the final contents are what \<open>asyncNext\<close>
  returns.)
\<close>

lemma typeSize_ofType:
  "isNonNullType t \<or> isListType t \<Longrightarrow> typeSize (ofType t) < typeSize t"
  by (cases t) auto

lemma typeSize_ofType_list:
  "isListType t \<Longrightarrow> 4 * typeSize (ofType t) + 3 < 4 * typeSize t"
  using typeSize_ofType[of t] by simp

lemma typeSize_pos: "0 < typeSize t"
  by (cases t) auto

lemma groupWeight_Cons: "groupWeight (x # xs) = Suc (nodesWeight (snd x)) + groupWeight xs"
  by (simp add: groupWeight_def)

lemma patchesWeight_Cons: "patchesWeight (x # xs) = Suc (groupWeight (snd x)) + patchesWeight xs"
  by (simp add: patchesWeight_def)

lemma collectSubfields_fields_weight:
  "groupWeight (fst (collectSubfields s t ns)) < Suc (nodesWeight ns)"
  using collectSubfields_weight[of s t ns] by simp

lemma collectSubfields_patches_weight:
  "patchesWeight (snd (collectSubfields s t ns)) < Suc (nodesWeight ns)"
  using collectSubfields_weight[of s t ns] by simp

function
  executeFields ::
    "exeContext \<Rightarrow> string \<Rightarrow> raw \<Rightarrow> path option \<Rightarrow> fieldGroup \<Rightarrow> nat \<Rightarrow> nat
       \<Rightarrow> (string \<times> cval promiseOrValue) list \<Rightarrow> exeState \<Rightarrow> cval completion"
and executeField ::
    "exeContext \<Rightarrow> string \<Rightarrow> raw \<Rightarrow> fieldNode list \<Rightarrow> path \<Rightarrow> nat \<Rightarrow> nat \<Rightarrow> exeState
       \<Rightarrow> (gerror + cval promiseOrValue option) \<times> exeState"
and completeValue ::
    "exeContext \<Rightarrow> gtype \<Rightarrow> fieldNode list \<Rightarrow> resolveInfo \<Rightarrow> path \<Rightarrow> raw \<Rightarrow> nat \<Rightarrow> nat
       \<Rightarrow> exeState \<Rightarrow> cval completion"
and completeListValue ::
    "exeContext \<Rightarrow> gtype \<Rightarrow> fieldNode list \<Rightarrow> resolveInfo \<Rightarrow> path \<Rightarrow> raw \<Rightarrow> nat \<Rightarrow> nat
       \<Rightarrow> exeState \<Rightarrow> cval completion"
and completeListItems ::
    "exeContext \<Rightarrow> gtype \<Rightarrow> fieldNode list \<Rightarrow> resolveInfo \<Rightarrow> path \<Rightarrow> streamValues option
       \<Rightarrow> raw list \<Rightarrow> nat \<Rightarrow> cval promiseOrValue list \<Rightarrow> nat \<Rightarrow> nat \<Rightarrow> exeState
       \<Rightarrow> cval completion"
and addValue ::
    "exeContext \<Rightarrow> path \<Rightarrow> raw \<Rightarrow> fieldNode list \<Rightarrow> resolveInfo \<Rightarrow> gtype \<Rightarrow> string option
       \<Rightarrow> nat \<Rightarrow> exeState \<Rightarrow> exeState"
and completeAsyncIteratorValue ::
    "exeContext \<Rightarrow> gtype \<Rightarrow> fieldNode list \<Rightarrow> resolveInfo \<Rightarrow> path \<Rightarrow> pull list \<Rightarrow> nat
       \<Rightarrow> nat \<Rightarrow> exeState \<Rightarrow> cval completion"
and asyncNext ::
    "exeContext \<Rightarrow> gtype \<Rightarrow> fieldNode list \<Rightarrow> resolveInfo \<Rightarrow> path \<Rightarrow> streamValues option
       \<Rightarrow> pull list \<Rightarrow> nat \<Rightarrow> cval promiseOrValue list \<Rightarrow> bool
       \<Rightarrow> (nat \<times> cval promiseOrValue list \<times> bool) option \<Rightarrow> nat \<Rightarrow> nat \<Rightarrow> exeState
       \<Rightarrow> cval promiseOrValue list \<times> (nat \<times> cval promiseOrValue list \<times> bool) option \<times> exeState"
and addAsyncIteratorValue ::
    "exeContext \<Rightarrow> nat \<Rightarrow> pull list \<Rightarrow> fieldNode list \<Rightarrow> resolveInfo \<Rightarrow> gtype
       \<Rightarrow> path option \<Rightarrow> string option \<Rightarrow> nat \<Rightarrow> exeState \<Rightarrow> exeState"
and completeAbstractValue ::
    "exeContext \<Rightarrow> string \<Rightarrow> predicateFn option \<Rightarrow> fieldNode list \<Rightarrow> resolveInfo \<Rightarrow> path
       \<Rightarrow> raw \<Rightarrow> nat \<Rightarrow> nat \<Rightarrow> exeState \<Rightarrow> cval completion"
and completeObjectValue ::
    "exeContext \<Rightarrow> string \<Rightarrow> fieldNode list \<Rightarrow> resolveInfo \<Rightarrow> path \<Rightarrow> raw \<Rightarrow> nat \<Rightarrow> nat
       \<Rightarrow> exeState \<Rightarrow> cval completion"
and collectAndExecuteSubfields ::
    "exeContext \<Rightarrow> string \<Rightarrow> fieldNode list \<Rightarrow> path \<Rightarrow> raw \<Rightarrow> nat \<Rightarrow> nat \<Rightarrow> exeState
       \<Rightarrow> cval completion"
and executeSubPatches ::
    "exeContext \<Rightarrow> string \<Rightarrow> raw \<Rightarrow> path \<Rightarrow> patchRecord list \<Rightarrow> nat \<Rightarrow> exeState
       \<Rightarrow> (gerror + unit) \<times> exeState"
where
  "executeFields ctx parentType sourceValue p fieldMap errors now results st =
     (case fieldMap of
        [] \<Rightarrow>
          (if list_ex isPending (map snd results)
           then (Inr (Promise (promiseForObject now results)), st)
           else (Inr (Value (CObject (zip (map fst results) (readyValues (map snd results))))), st))
      | entry # rest \<Rightarrow>
          (case executeField ctx parentType sourceValue (snd entry)
                  (addPath p (Key (fst entry)) (Some parentType)) errors now st of
             (Inl e, st1) \<Rightarrow> (Inl e, st1)
           | (Inr None, st1) \<Rightarrow>
               executeFields ctx parentType sourceValue p rest errors now results st1
           | (Inr (Some result), st1) \<Rightarrow>
               executeFields ctx parentType sourceValue p rest errors now
                 (objSet (fst entry) result results) st1))"
| "executeField ctx parentType source fieldNodes p errors now st =
     (case fieldNodes of
        [] \<Rightarrow> (Inl (Error ''TypeError: Cannot read properties of undefined''), st)
      | node # _ \<Rightarrow>
          (case getFieldDef (ctxSchema ctx) parentType node of
             None \<Rightarrow> (Inr None, st)
           | Some fd \<Rightarrow>
               (let returnType = fdType fd;
                    resolveFn = (case fdResolve fd of Some f \<Rightarrow> f | None \<Rightarrow> ctxFieldResolver ctx);
                    info = buildResolveInfo ctx fd fieldNodes parentType p;
                    attempt =
                      (case getArgumentValues ctx fd node of
                         Inl e \<Rightarrow> (Inl e, st)
                       | Inr args \<Rightarrow>
                           (let st0 = logEvent (ResolverCalled (pathToArray p) now) st in
                            case resolveFn source args info of
                              Inl e \<Rightarrow> (Inl e, st0)
                            | Inr result \<Rightarrow>
                                if isPromise result then
                                  (case settleRaw now result of
                                     Fulfilled t resolved \<Rightarrow>
                                       (let r = completeValue ctx returnType fieldNodes info p
                                                  resolved errors t st0
                                        in (Inr (Promise (settleWith t (fst r))), snd r))
                                   | Rejected t e \<Rightarrow> (Inr (Promise (Rejected t e)), st0)
                                   | Unsettled \<Rightarrow> (Inr (Promise Unsettled), st0))
                                else completeValue ctx returnType fieldNodes info p result
                                       errors now st0))
                in case attempt of
                     (Inl rawError, st1) \<Rightarrow>
                       (case handleFieldError (locatedError rawError fieldNodes (pathToArray p))
                               returnType errors now st1 of
                          (Inl e, st2) \<Rightarrow> (Inl e, st2)
                        | (Inr v, st2) \<Rightarrow> (Inr (Some (Value v)), st2))
                   | (Inr (Value v), st1) \<Rightarrow> (Inr (Some (Value v)), st1)
                   | (Inr (Promise pr), st1) \<Rightarrow>
                       (case catchFieldError fieldNodes (pathToArray p) returnType errors pr st1 of
                          (pr', st2) \<Rightarrow> (Inr (Some (Promise pr')), st2)))))"
| "completeValue ctx returnType fieldNodes info p result errors now st =
     (case errorInstance result of
        Some e \<Rightarrow> (Inl e, st)
      | None \<Rightarrow>
          if isNonNullType returnType then
            (let completed = completeValue ctx (ofType returnType) fieldNodes info p result
                               errors now st
             in if fst completed = Inr (Value CNull)
                then (Inl (cannotReturnNull info), snd completed)
                else completed)
          else if isNullish result then (Inr (Value CNull), st)
          else if isListType returnType then
            completeListValue ctx (ofType returnType) fieldNodes info p result errors now st
          else
            (case returnType of
               LeafT name serialize \<Rightarrow>
                 (case completeLeafValue name serialize result of
                    Inl e \<Rightarrow> (Inl e, st)
                  | Inr v \<Rightarrow> (Inr (leafResult now v), st))
             | AbstractT name resolveType \<Rightarrow>
                 completeAbstractValue ctx name resolveType fieldNodes info p result errors now st
             | ObjectT name \<Rightarrow>
                 completeObjectValue ctx name fieldNodes info p result errors now st
             | _ \<Rightarrow> (Inl (Error ''Cannot complete value of unexpected output type''), st)))"
| "completeListValue ctx itemType fieldNodes info p result errors now st =
     (case asyncIterator result of
        Some iterator \<Rightarrow>
          completeAsyncIteratorValue ctx itemType fieldNodes info p iterator errors now st
      | None \<Rightarrow>
          (case iterableItems result of
             None \<Rightarrow>
               (Inl (GraphQLError (''Expected Iterable, but did not find one for field \"'' @
                       infoParentType info @ ''.'' @ infoFieldName info @ ''\".'') None), st)
           | Some items \<Rightarrow>
               (case getStreamValues fieldNodes of
                  Inl e \<Rightarrow> (Inl e, st)
                | Inr stream \<Rightarrow>
                    completeListItems ctx itemType fieldNodes info p stream items 0 []
                      errors now st)))"
| "completeListItems ctx itemType fieldNodes info p stream items index completedResults
     errors now st =
     (case items of
        [] \<Rightarrow>
          (if list_ex isPending completedResults
           then (Inr (Promise (mapPromise CList (promiseAll now completedResults))), st)
           else (Inr (Value (CList (readyValues completedResults))), st))
      | item # rest \<Rightarrow>
          (let itemPath = addPath (Some p) (Index index) None in
           if streamsFrom stream index then
             completeListItems ctx itemType fieldNodes info p stream rest (Suc index)
               completedResults errors now
               (addValue ctx itemPath item fieldNodes info itemType (streamLabelOf stream) now st)
           else
             (let step =
                (if isPromise item then
                   (case settleRaw now item of
                      Fulfilled t resolved \<Rightarrow>
                        (let r = completeValue ctx itemType fieldNodes info itemPath resolved
                                   errors t st;
                             c = catchFieldError fieldNodes (pathToArray itemPath) itemType errors
                                   (settleWith t (fst r)) (snd r)
                         in (Inr (Promise (fst c)), snd c))
                    | Rejected t e \<Rightarrow>
                        (let c = catchFieldError fieldNodes (pathToArray itemPath) itemType errors
                                   (Rejected t e) st
                         in (Inr (Promise (fst c)), snd c))
                    | Unsettled \<Rightarrow> (Inr (Promise Unsettled), st))
                 else
                   (case completeValue ctx itemType fieldNodes info itemPath item errors now st of
                      (Inl rawError, st1) \<Rightarrow>
                        (case handleFieldError
                                (locatedError rawError fieldNodes (pathToArray itemPath))
                                itemType errors now st1 of
                           (Inl e, st2) \<Rightarrow> (Inl e, st2)
                         | (Inr v, st2) \<Rightarrow> (Inr (Value v), st2))
                    | (Inr (Value v), st1) \<Rightarrow> (Inr (Value v), st1)
                    | (Inr (Promise pr), st1) \<Rightarrow>
                        (let c = catchFieldError fieldNodes (pathToArray itemPath) itemType errors
                                   pr st1
                         in (Inr (Promise (fst c)), snd c))))
              in case step of
                   (Inl e, st') \<Rightarrow> (Inl e, st')
                 | (Inr completedItem, st') \<Rightarrow>
                     completeListItems ctx itemType fieldNodes info p stream rest (Suc index)
                       (completedResults @ [completedItem]) errors now st')))"
| "addValue ctx p promiseOrData fieldNodes info itemType label now st =
     (let alloc = newErrorList st;
          errors = fst alloc;
          pushed = pushPayload now Unsettled (snd alloc);
          completed =
            (case settleRaw now promiseOrData of
               Fulfilled t resolved \<Rightarrow>
                 (let r = completeValue ctx itemType fieldNodes info p resolved errors t
                            (snd pushed)
                  in (settleWith t (fst r), snd r))
             | Rejected t e \<Rightarrow> (Rejected t e, snd pushed)
             | Unsettled \<Rightarrow> (Unsettled, snd pushed));
          caught = catchFieldError fieldNodes (pathToArray p) itemType errors
                     (fst completed) (snd completed)
      in settlePayload (fst pushed)
           (patchPayload label (Some p) errors (fst caught) (snd caught)) (snd caught))"
| "completeAsyncIteratorValue ctx itemType fieldNodes info p iterator errors now st =
     (case getStreamValues fieldNodes of
        Inl e \<Rightarrow> (Inl e, st)
      | Inr stream \<Rightarrow>
          (case asyncNext ctx itemType fieldNodes info p stream iterator 0 [] False None
                  errors now st of
             (completedResults, resolved, st1) \<Rightarrow>
               (case resolved of
                  None \<Rightarrow> (Inr (Promise Unsettled), st1)
                | Some (t, snapshot, containsPromise) \<Rightarrow>
                    if containsPromise
                    then (Inr (Promise (mapPromise CList (promiseAll t snapshot))), st1)
                    else (Inr (Promise (Fulfilled t (CList (readyValues snapshot)))), st1))))"
| "asyncNext ctx itemType fieldNodes info p stream iterator index completedResults
     containsPromise resolved errors now st =
     (if streamsFrom stream index then
        (completedResults,
         resolveOnce now completedResults containsPromise resolved,
         addAsyncIteratorValue ctx index iterator fieldNodes info itemType (Some p)
           (streamLabelOf stream) now st)
      else
        (let fieldPath = addPath (Some p) (Index index) None in
         case iterator of
           [] \<Rightarrow> (completedResults, resolveOnce now completedResults containsPromise resolved, st)
         | PYield d v # rest \<Rightarrow>
             (case completeValue ctx itemType fieldNodes info fieldPath v errors (now + d) st of
                (Inr completedItem, st1) \<Rightarrow>
                  asyncNext ctx itemType fieldNodes info p stream rest (Suc index)
                    (completedResults @ [completedItem])
                    (containsPromise \<or> isPending completedItem) resolved errors (now + d) st1
              | (Inl rawError, st1) \<Rightarrow>
                  (case handleFieldError
                          (locatedError rawError fieldNodes (pathToArray fieldPath))
                          itemType errors (now + d) st1 of
                     (Inl e, st2) \<Rightarrow> (completedResults @ [Value CNull], resolved, st2)
                   | (Inr v, st2) \<Rightarrow>
                       asyncNext ctx itemType fieldNodes info p stream rest (Suc index)
                         (completedResults @ [Value CNull]) containsPromise
                         (resolveOnce (now + d) (completedResults @ [Value CNull])
                            containsPromise resolved)
                         errors (now + d) st2))
         | PReject d rawError # rest \<Rightarrow>
             (case handleFieldError (locatedError rawError fieldNodes (pathToArray fieldPath))
                     itemType errors (now + d) st of
                (Inl e, st2) \<Rightarrow> (completedResults @ [Value CNull], resolved, st2)
              | (Inr v, st2) \<Rightarrow>
                  (completedResults @ [Value CNull],
                   resolveOnce (now + d) (completedResults @ [Value CNull]) containsPromise
                     resolved,
                   st2))))"
| "addAsyncIteratorValue ctx index iterator fieldNodes info itemType p label now st =
     (let fieldPath = addPath p (Index index) None;
          alloc = newErrorList st;
          patchErrors = fst alloc;
          pushed = pushPayload now Unsettled (snd alloc)
      in case iterator of
           [] \<Rightarrow> settlePayload (fst pushed) (Fulfilled now IterDone) (snd pushed)
         | PYield d v # rest \<Rightarrow>
             (let st1 = addAsyncIteratorValue ctx (Suc index) rest fieldNodes info itemType p
                          label (now + d) (snd pushed)
              in case completeValue ctx itemType fieldNodes info fieldPath v patchErrors
                        (now + d) st1 of
                   (Inr (Value c), st2) \<Rightarrow>
                     settlePayload (fst pushed)
                       (patchPayload label (Some fieldPath) patchErrors (Fulfilled (now + d) c) st2)
                       st2
                 | (Inr (Promise pr), st2) \<Rightarrow>
                     settlePayload (fst pushed)
                       (patchPayload label (Some fieldPath) patchErrors pr st2) st2
                 | (Inl rawError, st2) \<Rightarrow>
                     (let c = catchFieldError fieldNodes (pathToArray fieldPath) itemType
                                patchErrors (Rejected (now + d) rawError) st2
                      in settlePayload (fst pushed)
                           (patchPayload label (Some fieldPath) patchErrors (fst c) (snd c))
                           (snd c)))
         | PReject d rawError # rest \<Rightarrow>
             (let c = catchFieldError fieldNodes (pathToArray fieldPath) itemType patchErrors
                        (Rejected (now + d) rawError) (snd pushed)
              in settlePayload (fst pushed)
                   (patchPayload label (Some fieldPath) patchErrors (fst c) (snd c)) (snd c)))"
| "completeAbstractValue ctx returnType resolveType fieldNodes info p result errors now st =
     (let resolveTypeFn =
            (case resolveType of
               Some f \<Rightarrow> f
             | None \<Rightarrow> (\<lambda>v i. ctxTypeResolver ctx v i returnType))
      in case resolveTypeFn result info of
           Inl e \<Rightarrow> (Inl e, st)
         | Inr runtimeType \<Rightarrow>
             if isPromise runtimeType then
               (case settleRaw now runtimeType of
                  Fulfilled t resolvedRuntimeType \<Rightarrow>
                    (case ensureValidRuntimeType resolvedRuntimeType ctx returnType fieldNodes
                            info of
                       Inl e \<Rightarrow> (Inr (Promise (Rejected t e)), st)
                     | Inr objectType \<Rightarrow>
                         (let r = completeObjectValue ctx objectType fieldNodes info p result
                                    errors t st
                          in (Inr (Promise (settleWith t (fst r))), snd r)))
                | Rejected t e \<Rightarrow> (Inr (Promise (Rejected t e)), st)
                | Unsettled \<Rightarrow> (Inr (Promise Unsettled), st))
             else
               (case ensureValidRuntimeType runtimeType ctx returnType fieldNodes info of
                  Inl e \<Rightarrow> (Inl e, st)
                | Inr objectType \<Rightarrow>
                    completeObjectValue ctx objectType fieldNodes info p result errors now st))"
| "completeObjectValue ctx returnType fieldNodes info p result errors now st =
     (case isTypeOf (ctxSchema ctx) returnType of
        None \<Rightarrow> collectAndExecuteSubfields ctx returnType fieldNodes p result errors now st
      | Some f \<Rightarrow>
          (case f result info of
             Inl e \<Rightarrow> (Inl e, st)
           | Inr isTypeOfResult \<Rightarrow>
               if isPromise isTypeOfResult then
                 (case settleRaw now isTypeOfResult of
                    Fulfilled t resolvedIsTypeOf \<Rightarrow>
                      if \<not> truthy resolvedIsTypeOf
                      then (Inr (Promise (Rejected t (invalidReturnTypeError returnType fieldNodes))),
                            st)
                      else
                        (let r = collectAndExecuteSubfields ctx returnType fieldNodes p result
                                   errors t st
                         in (Inr (Promise (settleWith t (fst r))), snd r))
                  | Rejected t e \<Rightarrow> (Inr (Promise (Rejected t e)), st)
                  | Unsettled \<Rightarrow> (Inr (Promise Unsettled), st))
               else if \<not> truthy isTypeOfResult
               then (Inl (invalidReturnTypeError returnType fieldNodes), st)
               else collectAndExecuteSubfields ctx returnType fieldNodes p result errors now st))"
| "collectAndExecuteSubfields ctx returnType fieldNodes p result errors now st =
     (let collected = collectSubfields (ctxSchema ctx) returnType fieldNodes in
      case executeFields ctx returnType result (Some p) (fst collected) errors now [] st of
        (Inl e, st1) \<Rightarrow> (Inl e, st1)
      | (Inr subFields, st1) \<Rightarrow>
          (case executeSubPatches ctx returnType result p (snd collected) now st1 of
             (Inl e, st2) \<Rightarrow> (Inl e, st2)
           | (Inr u, st2) \<Rightarrow> (Inr subFields, st2)))"
| "executeSubPatches ctx returnType result p subPatches now st =
     (case subPatches of
        [] \<Rightarrow> (Inr (), st)
      | subPatch # rest \<Rightarrow>
          (let alloc = newErrorList st;
               subPatchErrors = fst alloc
           in case executeFields ctx returnType result (Some p) (snd subPatch) subPatchErrors
                     now [] (snd alloc) of
                (Inl e, st1) \<Rightarrow> (Inl e, st1)
              | (Inr promiseOrData, st1) \<Rightarrow>
                  executeSubPatches ctx returnType result p rest now
                    (addFields promiseOrData subPatchErrors (fst subPatch) (Some p) now st1)))"
  by pat_completeness auto
termination executeFields
  apply (relation "inv_image (less_than <*lex*> less_than <*lex*> less_than <*lex*> less_than)
    (case_sum
      (case_sum
        (case_sum
          (\<lambda>(ctx, parentType, sourceValue, p, fieldMap, r).
             (groupWeight fieldMap, 5::nat, 0::nat, length fieldMap))
          (case_sum
            (\<lambda>(ctx, parentType, source, fieldNodes, r).
               (Suc (nodesWeight fieldNodes), 4, 0, 0))
            (\<lambda>(ctx, returnType, fieldNodes, r).
               (Suc (nodesWeight fieldNodes), 0, 4 * typeSize returnType, 0))))
        (case_sum
          (\<lambda>(ctx, itemType, fieldNodes, r).
             (Suc (nodesWeight fieldNodes), 0, 4 * typeSize itemType + 3, 0))
          (case_sum
            (\<lambda>(ctx, itemType, fieldNodes, info, p, stream, items, r).
               (Suc (nodesWeight fieldNodes), 0, 4 * typeSize itemType + 2, 2 * length items + 1))
            (\<lambda>(ctx, p, promiseOrData, fieldNodes, info, itemType, r).
               (Suc (nodesWeight fieldNodes), 0, 4 * typeSize itemType + 1, 0)))))
      (case_sum
        (case_sum
          (\<lambda>(ctx, itemType, fieldNodes, info, p, iterator, r).
             (Suc (nodesWeight fieldNodes), 0, 4 * typeSize itemType + 2, 2 * length iterator + 2))
          (case_sum
            (\<lambda>(ctx, itemType, fieldNodes, info, p, stream, iterator, r).
               (Suc (nodesWeight fieldNodes), 0, 4 * typeSize itemType + 2,
                2 * length iterator + 1))
            (\<lambda>(ctx, index, iterator, fieldNodes, info, itemType, r).
               (Suc (nodesWeight fieldNodes), 0, 4 * typeSize itemType + 2, 2 * length iterator))))
        (case_sum
          (case_sum
            (\<lambda>(ctx, returnType, resolveType, fieldNodes, r).
               (Suc (nodesWeight fieldNodes), 0, 2, 0))
            (\<lambda>(ctx, returnType, fieldNodes, r). (Suc (nodesWeight fieldNodes), 0, 1, 0)))
          (case_sum
            (\<lambda>(ctx, returnType, fieldNodes, r). (Suc (nodesWeight fieldNodes), 0, 0, 0))
            (\<lambda>(ctx, returnType, result, p, subPatches, r).
               (patchesWeight subPatches, 5, 0, 0))))))")
  apply (auto simp add: typeSize_ofType typeSize_ofType_list groupWeight_Cons patchesWeight_Cons
      typeSize_pos collectSubfields_fields_weight collectSubfields_patches_weight)
  done

declare executeFields.simps [simp del]
declare executeField.simps [simp del]
declare completeValue.simps [simp del]
declare completeListValue.simps [simp del]
declare completeListItems.simps [simp del]
declare addValue.simps [simp del]
declare completeAsyncIteratorValue.simps [simp del]
declare asyncNext.simps [simp del]
declare addAsyncIteratorValue.simps [simp del]
declare completeAbstractValue.simps [simp del]
declare completeObjectValue.simps [simp del]
declare collectAndExecuteSubfields.simps [simp del]
declare executeSubPatches.simps [simp del]

section \<open>Operations\<close>

text \<open>
  Modelled from the spec: \<^verbatim>\<open>jsutils/promiseReduce\<close> is not among the sources. Each next
  callback begins only after the accumulated value, including any future, has resolved: on
  a plain accumulator it runs at once (a throw leaves the loop), on a pending one it runs
  when that settles, and never once the accumulator has been rejected.
\<close>

fun promiseReduce ::
  "('a \<Rightarrow> 'b \<Rightarrow> nat \<Rightarrow> exeState \<Rightarrow> (gerror + 'a promiseOrValue) \<times> exeState) \<Rightarrow> 'b list
     \<Rightarrow> 'a promiseOrValue \<Rightarrow> nat \<Rightarrow> exeState \<Rightarrow> (gerror + 'a promiseOrValue) \<times> exeState" where
  "promiseReduce callbackFn [] accumulator now st = (Inr accumulator, st)"
| "promiseReduce callbackFn (v # values) accumulator now st =
     (case accumulator of
        Value a \<Rightarrow>
          (case callbackFn a v now st of
             (Inl e, st1) \<Rightarrow> (Inl e, st1)
           | (Inr next, st1) \<Rightarrow> promiseReduce callbackFn values next now st1)
      | Promise (Fulfilled t a) \<Rightarrow>
          (let r = callbackFn a v t st
           in promiseReduce callbackFn values (Promise (settleWith t (fst r))) now (snd r))
      | Promise (Rejected t e) \<Rightarrow> promiseReduce callbackFn values (Promise (Rejected t e)) now st
      | Promise Unsettled \<Rightarrow> promiseReduce callbackFn values (Promise Unsettled) now st)"

text \<open>The callback that \<open>executeFieldsSerially\<close> hands to \<open>promiseReduce\<close>.\<close>

definition serialCallback ::
  "exeContext \<Rightarrow> string \<Rightarrow> raw \<Rightarrow> path option \<Rightarrow> (string \<times> cval) list
     \<Rightarrow> string \<times> fieldNode list \<Rightarrow> nat \<Rightarrow> exeState
     \<Rightarrow> (gerror + (string \<times> cval) list promiseOrValue) \<times> exeState" where
  "serialCallback ctx parentType sourceValue p results entry now st =
     (let fieldPath = addPath p (Key (fst entry)) (Some parentType) in
      case executeField ctx parentType sourceValue (snd entry) fieldPath 0 now st of
        (Inl e, st1) \<Rightarrow> (Inl e, st1)
      | (Inr None, st1) \<Rightarrow> (Inr (Value results), st1)
      | (Inr (Some (Promise pr)), st1) \<Rightarrow>
          (Inr (Promise (mapPromise (\<lambda>resolvedResult. objSet (fst entry) resolvedResult results) pr)),
           st1)
      | (Inr (Some (Value v)), st1) \<Rightarrow> (Inr (Value (objSet (fst entry) v results)), st1))"

fun mapPromiseOrValue :: "('a \<Rightarrow> 'b) \<Rightarrow> 'a promiseOrValue \<Rightarrow> 'b promiseOrValue" where
  "mapPromiseOrValue f (Value v) = Value (f v)"
| "mapPromiseOrValue f (Promise p) = Promise (mapPromise f p)"

definition executeFieldsSerially ::
  "exeContext \<Rightarrow> string \<Rightarrow> raw \<Rightarrow> path option \<Rightarrow> fieldGroup \<Rightarrow> nat \<Rightarrow> exeState
     \<Rightarrow> cval completion" where
  "executeFieldsSerially ctx parentType sourceValue p fieldMap now st =
     (case promiseReduce (serialCallback ctx parentType sourceValue p) fieldMap (Value []) now st of
        (Inl e, st1) \<Rightarrow> (Inl e, st1)
      | (Inr results, st1) \<Rightarrow> (Inr (mapPromiseOrValue CObject results), st1))"

text \<open>
  The loop over the root patches in \<open>executeOperation\<close>. Address \<open>0\<close> is
  \<^verbatim>\<open>exeContext.errors\<close>.
\<close>

fun executeRootPatches ::
  "exeContext \<Rightarrow> string \<Rightarrow> raw \<Rightarrow> patchRecord list \<Rightarrow> nat \<Rightarrow> exeState
     \<Rightarrow> (gerror + unit) \<times> exeState" where
  "executeRootPatches ctx rootType rootValue [] now st = (Inr (), st)"
| "executeRootPatches ctx rootType rootValue (patch # rest) now st =
     (let alloc = newErrorList st;
          errors = fst alloc
      in case executeFields ctx rootType rootValue None (snd patch) 0 now [] (snd alloc) of
           (Inl e, st1) \<Rightarrow> (Inl e, st1)
         | (Inr promiseOrData, st1) \<Rightarrow>
             executeRootPatches ctx rootType rootValue rest now
               (addFields promiseOrData errors (fst patch) None now st1))"

definition executeOperation ::
  "exeContext \<Rightarrow> operationDefinitionNode \<Rightarrow> raw \<Rightarrow> nat \<Rightarrow> exeState \<Rightarrow> cval completion" where
  "executeOperation ctx op rootValue now st =
     (case getRootType (ctxSchema ctx) (operation op) of
        None \<Rightarrow> (Inl (GraphQLError ''Schema is not configured to execute this operation.'' None), st)
      | Some rootType \<Rightarrow>
          (let collected = collectFields (ctxSchema ctx) rootType (opSelectionSet op);
               main =
                 (case operation op of
                    QUERY \<Rightarrow> executeFields ctx rootType rootValue None (fst collected) 0 now [] st
                  | MUTATION \<Rightarrow>
                      executeFieldsSerially ctx rootType rootValue None (fst collected) now st
                  | SUBSCRIPTION \<Rightarrow>
                      executeFields ctx rootType rootValue None (fst collected) 0 now [] st)
           in case main of
                (Inl e, st1) \<Rightarrow> (Inl e, st1)
              | (Inr result, st1) \<Rightarrow>
                  (case executeRootPatches ctx rootType rootValue (snd collected) now st1 of
                     (Inl e, st2) \<Rightarrow> (Inl e, st2)
                   | (Inr u, st2) \<Rightarrow> (Inr result, st2))))"


section \<open>Default resolvers\<close>

text \<open>
  The default field resolver reads the property named like the field from a source that is
  object-like or a function, and calls it when it is a function. Of the properties of a
  host value the model has the own properties of a plain object, \<^verbatim>\<open>length\<close> of an array
  and \<^verbatim>\<open>message\<close> of an error; inherited properties (methods of the prototypes) and
  the properties of function objects are not modelled and read as undefined.
\<close>

definition propertyOf :: "raw \<Rightarrow> string \<Rightarrow> raw" where
  "propertyOf source name =
     (case source of
        RObject props \<Rightarrow> (case map_of props name of None \<Rightarrow> RUndefined | Some v \<Rightarrow> v)
      | RArray items \<Rightarrow>
          if name = ''length'' then RPrim (JNum (int (length items))) else RUndefined
      | RError e \<Rightarrow> if name = ''message'' then RPrim (JStr (message e)) else RUndefined
      | _ \<Rightarrow> RUndefined)"

definition isFunction :: "raw \<Rightarrow> bool" where
  "isFunction v = (case v of RFunction f \<Rightarrow> True | _ \<Rightarrow> False)"

definition defaultFieldResolver :: fieldResolverFn where
  "defaultFieldResolver source as info =
     (if isObjectLike source \<or> isFunction source then
        (case propertyOf source (infoFieldName info) of
           RFunction f \<Rightarrow> f as info
         | property \<Rightarrow> Inr property)
      else Inr RUndefined)"

fun testPossibleTypes ::
  "schema \<Rightarrow> raw \<Rightarrow> resolveInfo \<Rightarrow> string list \<Rightarrow> (string \<times> raw) list
     \<Rightarrow> gerror + (string + (string \<times> raw) list)" where
  "testPossibleTypes s v info [] promised = Inr (Inr promised)"
| "testPossibleTypes s v info (t # ts) promised =
     (case isTypeOf s t of
        None \<Rightarrow> testPossibleTypes s v info ts promised
      | Some f \<Rightarrow>
          (case f v info of
             Inl e \<Rightarrow> Inl e
           | Inr isTypeOfResult \<Rightarrow>
               if isPromise isTypeOfResult
               then testPossibleTypes s v info ts (promised @ [(t, isTypeOfResult)])
               else if truthy isTypeOfResult then Inr (Inl t)
               else testPossibleTypes s v info ts promised))"

fun firstTruthy :: "string list \<Rightarrow> raw list \<Rightarrow> raw" where
  "firstTruthy (t # ts) (r # rs) = (if truthy r then RPrim (JStr t) else firstTruthy ts rs)"
| "firstTruthy ts rs = RUndefined"

definition defaultTypeResolver :: "schema \<Rightarrow> raw \<Rightarrow> resolveInfo \<Rightarrow> string \<Rightarrow> gerror + raw" where
  "defaultTypeResolver s v info abstractType =
     (case (case v of RObject props \<Rightarrow> map_of props ''__typename'' | _ \<Rightarrow> None) of
        Some (RPrim (JStr name)) \<Rightarrow> Inr (RPrim (JStr name))
      | _ \<Rightarrow>
          (case testPossibleTypes s v info (getPossibleTypes s abstractType) [] of
             Inl e \<Rightarrow> Inl e
           | Inr (Inl name) \<Rightarrow> Inr (RPrim (JStr name))
           | Inr (Inr promised) \<Rightarrow>
               if promised = [] then Inr RUndefined
               else
                 (case promiseAll 0 (map (\<lambda>tr. Promise (settleRaw 0 (snd tr))) promised) of
                    Fulfilled d isTypeOfResults \<Rightarrow>
                      Inr (RPromise d (firstTruthy (map fst promised) isTypeOfResults))
                  | Rejected d e \<Rightarrow> Inr (RRejected d e)
                  | Unsettled \<Rightarrow> Inr RUndefined)))"

section \<open>The dispatcher's async sequence\<close>

record executionResult =
  resultErrors :: "gerror list option"
  resultData :: "cval option"

datatype asyncExecutionResult =
  InitialPayload "executionResult option" bool
| PatchPayload dispatcherResult bool
| HasNextOnly bool

text \<open>
  The dispatcher as \<open>get\<close> leaves it to the consumer: the queue of payload promises, the
  initial result, the flag, and the store the payloads' error addresses refer to.
\<close>

record dispatcher =
  payloads :: "payloadPromise list"
  initialResult :: "executionResult option"
  hasReturnedInitialResult :: bool
  payloadErrors :: "nat \<Rightarrow> gerror list"

text \<open>
  The queue as it stands at time \<open>now\<close>: the promises pushed by then. (The state lists
  every promise the execution pushes, also those pushed at later logical times.)
\<close>

definition queueAt :: "nat \<Rightarrow> payloadPromise list \<Rightarrow> payloadPromise list" where
  "queueAt now qs = filter (\<lambda>q. pushedAt q \<le> now) qs"

definition hasSubsequentPayloads :: "nat \<Rightarrow> exeState \<Rightarrow> bool" where
  "hasSubsequentPayloads now st = (length (queueAt now (subsequentPayloads st)) \<noteq> 0)"

text \<open>
  The race is started at time \<open>now\<close> among the promises queued at that time. Every one of
  them gets a continuation; a promise that has already settled runs it at once, one that is
  still pending when it fulfils, a rejected or unsettled one never. The race is won at the
  earliest of these times by a promise whose continuation runs then. Among several such
  promises the order of the host's microtasks decides, which the model does not have:
  \<open>tie\<close> stands for it and selects one of them by position.
\<close>

definition winsAt :: "nat \<Rightarrow> payloadPromise \<Rightarrow> nat option" where
  "winsAt now q =
     (case settlement q of Fulfilled t r \<Rightarrow> Some (max now t) | Rejected t e \<Rightarrow> None | Unsettled \<Rightarrow> None)"

fun raceTime :: "nat \<Rightarrow> payloadPromise list \<Rightarrow> nat option" where
  "raceTime now [] = None"
| "raceTime now (q # qs) =
     (case winsAt now q of
        None \<Rightarrow> raceTime now qs
      | Some t \<Rightarrow> (case raceTime now qs of None \<Rightarrow> Some t | Some t' \<Rightarrow> Some (min t t')))"

definition contenders :: "nat \<Rightarrow> payloadPromise list \<Rightarrow> payloadPromise list" where
  "contenders now qs =
     (case raceTime now qs of
        None \<Rightarrow> []
      | Some t \<Rightarrow> filter (\<lambda>q. winsAt now q = Some t) qs)"

definition firstToSettle ::
  "(payloadPromise list \<Rightarrow> nat) \<Rightarrow> nat \<Rightarrow> payloadPromise list \<Rightarrow> payloadPromise option" where
  "firstToSettle tie now qs =
     (case contenders now (queueAt now qs) of
        [] \<Rightarrow> None
      | c # cs \<Rightarrow> Some ((c # cs) ! (tie (c # cs) mod length (c # cs))))"

text \<open>
  \<^verbatim>\<open>indexOf\<close> compares promise objects by identity; \<^verbatim>\<open>splice(-1, 1)\<close>, which is what
  a promise that is not in the queue would lead to, removes the last entry.
\<close>

fun indexOf :: "payloadPromise list \<Rightarrow> nat \<Rightarrow> nat option" where
  "indexOf [] i = None"
| "indexOf (q # qs) i = (if pid q = i then Some 0 else map_option Suc (indexOf qs i))"

definition spliceOut :: "payloadPromise list \<Rightarrow> nat \<Rightarrow> payloadPromise list" where
  "spliceOut qs i =
     (case indexOf qs i of Some k \<Rightarrow> take k qs @ drop (Suc k) qs | None \<Rightarrow> butlast qs)"

lemma raceTime_None: "raceTime now qs = None \<longleftrightarrow> (\<forall>q\<in>set qs. winsAt now q = None)"
  by (induction qs) (auto split: option.splits)

lemma raceTime_least:
  "raceTime now qs = Some t \<Longrightarrow> q \<in> set qs \<Longrightarrow> winsAt now q = Some u \<Longrightarrow> t \<le> u"
  by (induction qs arbitrary: t) (auto split: option.splits simp: raceTime_None)

lemma raceTime_attained:
  "raceTime now qs = Some t \<Longrightarrow> \<exists>q\<in>set qs. winsAt now q = Some t"
proof (induction qs arbitrary: t)
  case Nil
  then show ?case by simp
next
  case (Cons q qs)
  show ?case
  proof (cases "winsAt now q")
    case None
    with Cons show ?thesis by auto
  next
    case (Some u)
    show ?thesis
    proof (cases "raceTime now qs")
      case None
      with Cons.prems Some show ?thesis by auto
    next
      case r: (Some u')
      with Cons.prems Some have t: "t = min u u'" by simp
      show ?thesis
      proof (cases "u \<le> u'")
        case True
        with t Some show ?thesis by (auto simp: min_def)
      next
        case False
        with t have "t = u'" by (simp add: min_def)
        with Cons.IH[OF r] show ?thesis by auto
      qed
    qed
  qed
qed

lemma contenders_Nil: "contenders now qs = [] \<longleftrightarrow> (\<forall>q\<in>set qs. winsAt now q = None)"
proof (cases "raceTime now qs")
  case None
  then have "contenders now qs = []" by (simp add: contenders_def)
  moreover from None have "\<forall>q\<in>set qs. winsAt now q = None" by (simp add: raceTime_None)
  ultimately show ?thesis by simp
next
  case (Some t)
  from raceTime_attained[OF Some] obtain q where "q \<in> set qs" and "winsAt now q = Some t"
    by blast
  then have "filter (\<lambda>q. winsAt now q = Some t) qs \<noteq> []" and "\<not> (\<forall>q\<in>set qs. winsAt now q = None)"
    by (auto simp: filter_empty_conv)
  with Some show ?thesis by (simp add: contenders_def)
qed

lemma firstToSettle_contender:
  "firstToSettle tie now qs = Some q \<Longrightarrow> q \<in> set (contenders now (queueAt now qs))"
proof -
  assume a: "firstToSettle tie now qs = Some q"
  show ?thesis
  proof (cases "contenders now (queueAt now qs)")
    case Nil
    with a show ?thesis by (simp add: firstToSettle_def)
  next
    case (Cons c cs)
    have "tie (c # cs) mod length (c # cs) < length (c # cs)" by simp
    then have "(c # cs) ! (tie (c # cs) mod length (c # cs)) \<in> set (c # cs)"
      by (rule nth_mem)
    with a Cons show ?thesis by (simp add: firstToSettle_def)
  qed
qed

lemma firstToSettle_mem: "firstToSettle tie now qs = Some q \<Longrightarrow> q \<in> set qs"
  by (drule firstToSettle_contender)
     (auto simp: contenders_def queueAt_def split: option.splits)

lemma length_spliceOut: "qs \<noteq> [] \<Longrightarrow> length (spliceOut qs i) < length qs"
proof (cases "indexOf qs i")
  case None
  assume "qs \<noteq> []"
  with None show ?thesis by (simp add: spliceOut_def)
next
  case (Some k)
  have "indexOf qs i = Some k \<Longrightarrow> k < length qs"
    by (induction qs arbitrary: k) (auto split: if_splits)
  with Some show ?thesis by (simp add: spliceOut_def)
qed

text \<open>
  \<open>dispatcher_race\<close> returns what the promise of \<^verbatim>\<open>_race\<close> fulfils with, the dispatcher
  it leaves and the time; \<open>None\<close> when the promise never settles. The queue is read when
  the race starts and again, for its length, once the winner has been removed.
\<close>

function dispatcher_race ::
  "(payloadPromise list \<Rightarrow> nat) \<Rightarrow> dispatcher \<Rightarrow> nat
     \<Rightarrow> (asyncExecutionResult iteratorResult \<times> dispatcher \<times> nat) option" where
  "dispatcher_race tie d now =
     (case firstToSettle tie now (payloads d) of
        None \<Rightarrow> None
      | Some promise \<Rightarrow>
          (let d' = d\<lparr>payloads := spliceOut (payloads d) (pid promise)\<rparr> in
           case settlement promise of
             Fulfilled t r \<Rightarrow>
               (case r of
                  IterDone \<Rightarrow>
                    if length (queueAt (max now t) (payloads d')) = 0
                    then Some (IterValue (HasNextOnly False), d', max now t)
                    else dispatcher_race tie d' (max now t)
                | IterValue v \<Rightarrow>
                    Some (IterValue
                            (PatchPayload v (length (queueAt (max now t) (payloads d')) > 0)),
                          d', max now t))
           | Rejected t e \<Rightarrow> None
           | Unsettled \<Rightarrow> None))"
  by pat_completeness auto
termination
proof (relation "measure (\<lambda>(tie, d, now). length (payloads d))")
  show "wf (measure (\<lambda>(tie, d, now). length (payloads d)))" by simp
next
  fix tie :: "payloadPromise list \<Rightarrow> nat" and d :: dispatcher and now :: nat and promise d' t r
  assume w: "firstToSettle tie now (payloads d) = Some promise"
    and d': "d' = d\<lparr>payloads := spliceOut (payloads d) (pid promise)\<rparr>"
  from w have "payloads d \<noteq> []" using firstToSettle_mem by fastforce
  then have "length (spliceOut (payloads d) (pid promise)) < length (payloads d)"
    by (rule length_spliceOut)
  with d' show "((tie, d', max now t), (tie, d, now)) \<in> measure (\<lambda>(tie, d, now). length (payloads d))"
    by simp
qed

declare dispatcher_race.simps [simp del]

definition dispatcher_next ::
  "(payloadPromise list \<Rightarrow> nat) \<Rightarrow> dispatcher \<Rightarrow> nat
     \<Rightarrow> (asyncExecutionResult iteratorResult \<times> dispatcher \<times> nat) option" where
  "dispatcher_next tie d now =
     (if \<not> hasReturnedInitialResult d
      then Some (IterValue (InitialPayload (initialResult d) True),
                 d\<lparr>hasReturnedInitialResult := True\<rparr>, now)
      else if length (queueAt now (payloads d)) = 0 then Some (IterDone, d, now)
      else dispatcher_race tie d now)"

text \<open>
  \<^verbatim>\<open>get\<close> stores the initial result and returns an iterator over the dispatcher itself,
  so the queue of the sequence is the queue the execution pushes to.
\<close>

definition dispatcher_get :: "executionResult \<Rightarrow> exeState \<Rightarrow> dispatcher" where
  "dispatcher_get initial st =
     \<lparr>payloads = subsequentPayloads st, initialResult = Some initial,
      hasReturnedInitialResult = False, payloadErrors = errorLists st\<rparr>"

section \<open>Entry points\<close>

record executionArgs =
  argSchema :: schema
  argDocument :: "definitionNode list option"
  argRootValue :: raw
  argVariableValues :: raw
  argOperationName :: "string option"
  argFieldResolver :: "fieldResolverFn option"
  argTypeResolver :: "(raw \<Rightarrow> resolveInfo \<Rightarrow> string \<Rightarrow> gerror + raw) option"
  coerceVariableValues :: "schema \<Rightarrow> string list \<Rightarrow> raw \<Rightarrow> gerror list \<times> (string \<times> raw) list"
  coerceArgumentValues :: "fieldDef \<Rightarrow> fieldNode \<Rightarrow> gerror + args"

text \<open>
  \<open>argOperationName = None\<close> is a null or undefined operation name. The last two entries
  are the coercion functions of \<^verbatim>\<open>./values\<close>, which is not among the sources:
  \<open>coerceVariableValues\<close> yields every coercion error of the raw variables together
  with the coerced values.

  Modelled from the spec: \<open>getVariableValues\<close> surfaces up to \<open>maxErrors\<close> of the coercion
  errors, and the coerced values when there is none.
\<close>

definition getVariableValues ::
  "(schema \<Rightarrow> string list \<Rightarrow> raw \<Rightarrow> gerror list \<times> (string \<times> raw) list) \<Rightarrow> schema \<Rightarrow> string list
     \<Rightarrow> raw \<Rightarrow> nat \<Rightarrow> gerror list + (string \<times> raw) list" where
  "getVariableValues coerce s defs inputs maxErrors =
     (let r = coerce s defs inputs
      in if fst r = [] then Inr (snd r) else Inl (take maxErrors (fst r)))"

definition buildResponse :: "cval \<Rightarrow> gerror list \<Rightarrow> executionResult" where
  "buildResponse d errors =
     (if length errors = 0 then \<lparr>resultErrors = None, resultData = Some d\<rparr>
      else \<lparr>resultErrors = Some errors, resultData = Some d\<rparr>)"

definition assertValidExecutionArguments ::
  "schema \<Rightarrow> definitionNode list option \<Rightarrow> raw \<Rightarrow> gerror option" where
  "assertValidExecutionArguments s document rawVariableValues =
     (if document = None then Some (Error ''Must provide document.'')
      else
        (case schemaValidationErrors s of
           e # es \<Rightarrow> Some e
         | [] \<Rightarrow>
             if isNullish rawVariableValues \<or> isObjectLike rawVariableValues then None
             else Some (Error ''Variables must be provided as an Object where each property is a variable value. Perhaps look to see if an unparsed JSON string was provided.'')))"

text \<open>The loop of \<open>buildExecutionContext\<close> over the definitions of the document.\<close>

fun findOperation ::
  "string option \<Rightarrow> definitionNode list \<Rightarrow> operationDefinitionNode option
     \<Rightarrow> (string \<Rightarrow> fragmentDefinitionNode option)
     \<Rightarrow> gerror list + operationDefinitionNode option \<times> (string \<Rightarrow> fragmentDefinitionNode option)" where
  "findOperation operationName [] op fragments = Inr (op, fragments)"
| "findOperation operationName (OperationDefinition d # ds) op fragments =
     (case operationName of
        None \<Rightarrow>
          (case op of
             Some previous \<Rightarrow>
               Inl [GraphQLError
                      ''Must provide operation name if query contains multiple operations.'' None]
           | None \<Rightarrow> findOperation operationName ds (Some d) fragments)
      | Some name \<Rightarrow>
          if opName d = Some name then findOperation operationName ds (Some d) fragments
          else findOperation operationName ds op fragments)"
| "findOperation operationName (FragmentDefinition f # ds) op fragments =
     findOperation operationName ds op (fragments(fragName f := Some f))"
| "findOperation operationName (OtherDefinition # ds) op fragments =
     findOperation operationName ds op fragments"

definition buildExecutionContext :: "executionArgs \<Rightarrow> gerror list + exeContext" where
  "buildExecutionContext a =
     (case findOperation (argOperationName a)
             (case argDocument a of None \<Rightarrow> [] | Some ds \<Rightarrow> ds) None (\<lambda>_. None) of
        Inl errs \<Rightarrow> Inl errs
      | Inr (None, fragments) \<Rightarrow>
          (case argOperationName a of
             Some name \<Rightarrow> Inl [GraphQLError (''Unknown operation named \"'' @ name @ ''\".'') None]
           | None \<Rightarrow> Inl [GraphQLError ''Must provide an operation.'' None])
      | Inr (Some op, fragments) \<Rightarrow>
          (let defs = (case variableDefinitions op of None \<Rightarrow> [] | Some vs \<Rightarrow> vs);
               coercedVariableValues =
                 getVariableValues (coerceVariableValues a) (argSchema a) defs
                   (if isNullish (argVariableValues a) then RObject [] else argVariableValues a) 50
           in case coercedVariableValues of
                Inl errs \<Rightarrow> Inl errs
              | Inr coerced \<Rightarrow>
                  Inr \<lparr>ctxSchema = argSchema a, ctxFragments = fragments,
                       ctxRootValue = argRootValue a, ctxOperation = op,
                       ctxVariableValues = coerced,
                       ctxFieldResolver =
                         (case argFieldResolver a of Some f \<Rightarrow> f | None \<Rightarrow> defaultFieldResolver),
                       ctxTypeResolver =
                         (case argTypeResolver a of
                            Some f \<Rightarrow> f
                          | None \<Rightarrow> defaultTypeResolver (argSchema a)),
                       getArgumentValues = coerceArgumentValues a\<rparr>))"

datatype executed = ExecutionResult executionResult | AsyncIterable dispatcher

text \<open>
  What \<open>execute\<close> does with the data of the operation once it is there, at time \<open>now\<close>:
  the response is built from \<^verbatim>\<open>exeContext.errors\<close> as it stands then.
\<close>

definition respond :: "cval \<Rightarrow> nat \<Rightarrow> exeState \<Rightarrow> executed" where
  "respond d now st =
     (let initial = buildResponse d (errorsAt now st 0)
      in if hasSubsequentPayloads now st then AsyncIterable (dispatcher_get initial st)
         else ExecutionResult initial)"

definition respondError :: "gerror \<Rightarrow> nat \<Rightarrow> exeState \<Rightarrow> executed" where
  "respondError error now st =
     ExecutionResult (buildResponse CNull (errorsAt now (pushError 0 now error st) 0))"

definition execute :: "executionArgs \<Rightarrow> (gerror + executed promiseOrValue) \<times> exeState" where
  "execute a =
     (case assertValidExecutionArguments (argSchema a) (argDocument a) (argVariableValues a) of
        Some e \<Rightarrow> (Inl e, initialState)
      | None \<Rightarrow>
          (case buildExecutionContext a of
             Inl errs \<Rightarrow>
               (Inr (Value (ExecutionResult \<lparr>resultErrors = Some errs, resultData = None\<rparr>)),
                initialState)
           | Inr exeCtx \<Rightarrow>
               (case executeOperation exeCtx (ctxOperation exeCtx) (argRootValue a) 0 initialState of
                  (Inl error, st) \<Rightarrow> (Inr (Value (respondError error 0 st)), pushError 0 0 error st)
                | (Inr (Value d), st) \<Rightarrow> (Inr (Value (respond d 0 st)), st)
                | (Inr (Promise (Fulfilled t d)), st) \<Rightarrow>
                    (Inr (Promise (Fulfilled t (respond d t st))), st)
                | (Inr (Promise (Rejected t error)), st) \<Rightarrow>
                    (Inr (Promise (Fulfilled t (respondError error t st))), pushError 0 t error st)
                | (Inr (Promise Unsettled), st) \<Rightarrow> (Inr (Promise Unsettled), st))))"

definition executeSync :: "executionArgs \<Rightarrow> gerror + executionResult" where
  "executeSync a =
     (case fst (execute a) of
        Inl e \<Rightarrow> Inl e
      | Inr (Promise p) \<Rightarrow> Inl (Error ''GraphQL execution failed to complete synchronously.'')
      | Inr (Value (AsyncIterable d)) \<Rightarrow>
          Inl (Error ''GraphQL execution failed to complete synchronously.'')
      | Inr (Value (ExecutionResult r)) \<Rightarrow> Inr r)"
section \<open>Notions used to state the properties\<close>

text \<open>The operations of a document, in source order.\<close>

fun operationDefinitions :: "definitionNode list \<Rightarrow> operationDefinitionNode list" where
  "operationDefinitions [] = []"
| "operationDefinitions (OperationDefinition d # ds) = d # operationDefinitions ds"
| "operationDefinitions (FragmentDefinition f # ds) = operationDefinitions ds"
| "operationDefinitions (OtherDefinition # ds) = operationDefinitions ds"


text \<open>
  Handing the elements of a list to the dispatcher one after the other, each with
  \<open>addValue\<close> at the path of its index, counting from \<open>index\<close>.
\<close>

fun dispatchFrom ::
  "exeContext \<Rightarrow> path \<Rightarrow> fieldNode list \<Rightarrow> resolveInfo \<Rightarrow> gtype \<Rightarrow> string option \<Rightarrow> nat
     \<Rightarrow> nat \<Rightarrow> raw list \<Rightarrow> exeState \<Rightarrow> exeState" where
  "dispatchFrom ctx p fieldNodes info itemType label now index [] st = st"
| "dispatchFrom ctx p fieldNodes info itemType label now index (item # rest) st =
     dispatchFrom ctx p fieldNodes info itemType label now (Suc index) rest
       (addValue ctx (addPath (Some p) (Index index) None) item fieldNodes info itemType label
          now st)"

text \<open>
  The body of the loop of \<open>completeListValue\<close> for an element that is completed
  inline (lemma \<open>completeListItems_inline\<close> below ties it to the loop).
\<close>

definition completeListItem ::
  "exeContext \<Rightarrow> gtype \<Rightarrow> fieldNode list \<Rightarrow> resolveInfo \<Rightarrow> path \<Rightarrow> raw \<Rightarrow> nat \<Rightarrow> nat
     \<Rightarrow> exeState \<Rightarrow> cval completion" where
  "completeListItem ctx itemType fieldNodes info itemPath item errors now st =
     (if isPromise item then
        (case settleRaw now item of
           Fulfilled t resolved \<Rightarrow>
             (let r = completeValue ctx itemType fieldNodes info itemPath resolved errors t st;
                  c = catchFieldError fieldNodes (pathToArray itemPath) itemType errors
                        (settleWith t (fst r)) (snd r)
              in (Inr (Promise (fst c)), snd c))
         | Rejected t e \<Rightarrow>
             (let c = catchFieldError fieldNodes (pathToArray itemPath) itemType errors
                        (Rejected t e) st
              in (Inr (Promise (fst c)), snd c))
         | Unsettled \<Rightarrow> (Inr (Promise Unsettled), st))
      else
        (case completeValue ctx itemType fieldNodes info itemPath item errors now st of
           (Inl rawError, st1) \<Rightarrow>
             (case handleFieldError (locatedError rawError fieldNodes (pathToArray itemPath))
                     itemType errors now st1 of
                (Inl e, st2) \<Rightarrow> (Inl e, st2)
              | (Inr v, st2) \<Rightarrow> (Inr (Value v), st2))
         | (Inr (Value v), st1) \<Rightarrow> (Inr (Value v), st1)
         | (Inr (Promise pr), st1) \<Rightarrow>
             (let c = catchFieldError fieldNodes (pathToArray itemPath) itemType errors pr st1
              in (Inr (Promise (fst c)), snd c))))"

text \<open>
  Values that hold no future and no async sequence, at any depth: what a resolver returns
  when nothing about its result is asynchronous. A function object is such a value when
  every call of it that returns, returns such a value.
\<close>

primrec plainRaw :: "raw \<Rightarrow> bool" and plainPull :: "pull \<Rightarrow> bool" where
  "plainRaw (RPromise d v) = False"
| "plainRaw (RRejected d e) = False"
| "plainRaw (RAsyncIterable i) = False"
| "plainRaw (RArray items) = list_all id (map plainRaw items)"
| "plainRaw (RObject props) = list_all snd (map (map_prod id plainRaw) props)"
| "plainRaw (RFunction f) =
     (\<forall>as info. case map_sum id plainRaw (f as info) of Inl e \<Rightarrow> True | Inr plain \<Rightarrow> plain)"
| "plainRaw RUndefined = True"
| "plainRaw RNull = True"
| "plainRaw (RError e) = True"
| "plainRaw (RPrim v) = True"
| "plainRaw (RObjectType n) = True"
| "plainPull (PYield d v) = False"
| "plainPull (PReject d e) = False"

text \<open>
  A return type whose \<open>serialize\<close> function, where it is a leaf type, and whose
  \<open>resolveType\<close> function, where an abstract type has one, never return a future.
\<close>

fun syncType :: "gtype \<Rightarrow> bool" where
  "syncType (NonNullT t) = syncType t"
| "syncType (ListT t) = syncType t"
| "syncType (LeafT n serialize) = (\<forall>v r. serialize v = Inr r \<longrightarrow> \<not> isPromise r)"
| "syncType (AbstractT n (Some f)) = (\<forall>v info r. f v info = Inr r \<longrightarrow> \<not> isPromise r)"
| "syncType t = True"

text \<open>
  A field name all of whose definitions in the schema have such a type and a resolver that,
  called on a source without futures, returns a value without futures; an operation is
  synchronous when this holds for every field that its selection sets name, and no
  \<open>isTypeOf\<close> function of the schema and not the type resolver returns a future.
\<close>

definition syncField :: "exeContext \<Rightarrow> string \<Rightarrow> bool" where
  "syncField ctx name \<longleftrightarrow>
     (\<forall>parentType node fd.
        nodeName node = name \<longrightarrow>
        getFieldDef (ctxSchema ctx) parentType node = Some fd \<longrightarrow>
        syncType (fdType fd) \<and>
        (\<forall>source as info r.
           plainRaw source \<longrightarrow>
           (case fdResolve fd of Some f \<Rightarrow> f | None \<Rightarrow> ctxFieldResolver ctx) source as info = Inr r
           \<longrightarrow> plainRaw r))"

fun syncNode :: "exeContext \<Rightarrow> fieldNode \<Rightarrow> bool"
  and syncSelection :: "exeContext \<Rightarrow> selection \<Rightarrow> bool" where
  "syncNode ctx (FieldNode a n as st sels) = (syncField ctx n \<and> list_all (syncSelection ctx) sels)"
| "syncSelection ctx (FieldSelection n) = syncNode ctx n"
| "syncSelection ctx (FragmentSelection incl d cond sels) = list_all (syncSelection ctx) sels"

definition syncGroup :: "exeContext \<Rightarrow> fieldGroup \<Rightarrow> bool" where
  "syncGroup ctx g = list_all (\<lambda>entry. list_all (syncNode ctx) (snd entry)) g"

definition syncTypeTests :: "exeContext \<Rightarrow> bool" where
  "syncTypeTests ctx \<longleftrightarrow>
     (\<forall>t f v info r. isTypeOf (ctxSchema ctx) t = Some f \<longrightarrow> f v info = Inr r \<longrightarrow> \<not> isPromise r) \<and>
     (\<forall>v info n r. ctxTypeResolver ctx v info n = Inr r \<longrightarrow> \<not> isPromise r)"

definition syncOperation :: "exeContext \<Rightarrow> bool" where
  "syncOperation ctx \<longleftrightarrow>
     syncTypeTests ctx \<and> list_all (syncSelection ctx) (opSelectionSet (ctxOperation ctx))"

text \<open>Whether a call returned a promise.\<close>

fun returnsPromise :: "gerror + 'a promiseOrValue \<Rightarrow> bool" where
  "returnsPromise (Inr (Promise p)) = True"
| "returnsPromise r = False"

fun returnsPromiseOpt :: "gerror + 'a promiseOrValue option \<Rightarrow> bool" where
  "returnsPromiseOpt (Inr (Some (Promise p))) = True"
| "returnsPromiseOpt r = False"

text \<open>
  Notions for the order of resolver calls. \<open>eventsFrom pre t0 old new\<close>: the trace \<open>new\<close>
  extends \<open>old\<close> by resolver calls at paths that start with \<open>pre\<close> and at times from \<open>t0\<close>
  on. \<open>settledFrom t0\<close>: a promise that settles does so at \<open>t0\<close> or later.
  \<open>settledAt now x\<close>: the time at which \<open>x\<close> is there, and its value, when \<open>x\<close> is a plain
  value (there at \<open>now\<close>) or a promise that fulfils. \<open>fieldDefined\<close>: the schema defines
  the field of a collected entry.
\<close>

definition startsWith :: "'a list \<Rightarrow> 'a list \<Rightarrow> bool" where
  "startsWith pre xs \<longleftrightarrow> take (length pre) xs = pre"

fun eventPath :: "event \<Rightarrow> pathKey list" where
  "eventPath (ResolverCalled q t) = q"

fun eventTime :: "event \<Rightarrow> nat" where
  "eventTime (ResolverCalled q t) = t"

definition eventsFrom :: "pathKey list \<Rightarrow> nat \<Rightarrow> event list \<Rightarrow> event list \<Rightarrow> bool" where
  "eventsFrom pre t0 old new \<longleftrightarrow>
     take (length old) new = old \<and>
     list_all (\<lambda>ev. startsWith pre (eventPath ev) \<and> t0 \<le> eventTime ev) (drop (length old) new)"

fun settledFrom :: "nat \<Rightarrow> 'a promiseOrValue \<Rightarrow> bool" where
  "settledFrom t0 (Promise (Fulfilled t v)) = (t0 \<le> t)"
| "settledFrom t0 (Promise (Rejected t e)) = (t0 \<le> t)"
| "settledFrom t0 x = True"

fun settlesFrom :: "nat \<Rightarrow> gerror + 'a promiseOrValue \<Rightarrow> bool" where
  "settlesFrom t0 (Inr x) = settledFrom t0 x"
| "settlesFrom t0 (Inl e) = True"

fun settlesFromOpt :: "nat \<Rightarrow> gerror + 'a promiseOrValue option \<Rightarrow> bool" where
  "settlesFromOpt t0 (Inr (Some x)) = settledFrom t0 x"
| "settlesFromOpt t0 r = True"

definition resolvedFrom ::
  "nat \<Rightarrow> (nat \<times> 'a promiseOrValue list \<times> bool) option \<Rightarrow> bool" where
  "resolvedFrom t0 resolved =
     (case resolved of
        None \<Rightarrow> True
      | Some r \<Rightarrow> t0 \<le> fst r \<and> list_all (settledFrom t0) (fst (snd r)))"

definition completionFrom ::
  "pathKey list \<Rightarrow> nat \<Rightarrow> exeState \<Rightarrow> (gerror + 'a promiseOrValue) \<times> exeState \<Rightarrow> bool" where
  "completionFrom pre t0 st r \<longleftrightarrow>
     eventsFrom pre t0 (events st) (events (snd r)) \<and> settlesFrom t0 (fst r)"

definition nextFrom ::
  "pathKey list \<Rightarrow> nat \<Rightarrow> exeState
     \<Rightarrow> 'a promiseOrValue list \<times> (nat \<times> 'a promiseOrValue list \<times> bool) option \<times> exeState
     \<Rightarrow> bool" where
  "nextFrom pre t0 st r \<longleftrightarrow>
     eventsFrom pre t0 (events st) (events (snd (snd r))) \<and>
     list_all (settledFrom t0) (fst r) \<and> resolvedFrom t0 (fst (snd r))"

fun settledAt :: "nat \<Rightarrow> 'a promiseOrValue \<Rightarrow> (nat \<times> 'a) option" where
  "settledAt now (Value a) = Some (now, a)"
| "settledAt now (Promise (Fulfilled t a)) = Some (t, a)"
| "settledAt now (Promise (Rejected t e)) = None"
| "settledAt now (Promise Unsettled) = None"

definition fieldDefined :: "exeContext \<Rightarrow> string \<Rightarrow> string \<times> fieldNode list \<Rightarrow> bool" where
  "fieldDefined ctx parentType entry =
     (case snd entry of
        [] \<Rightarrow> False
      | node # _ \<Rightarrow> getFieldDef (ctxSchema ctx) parentType node \<noteq> None)"

text \<open>
  Selections without an active \<^verbatim>\<open>@stream\<close> on a field and without an active
  \<^verbatim>\<open>@defer\<close> on a fragment, at any depth.
\<close>

fun inlineNode :: "fieldNode \<Rightarrow> bool"
  and inlineSelection :: "selection \<Rightarrow> bool" where
  "inlineNode (FieldNode a n as st sels) =
     (getStreamValues [FieldNode a n as st sels] = Inr None \<and> list_all inlineSelection sels)"
| "inlineSelection (FieldSelection n) = inlineNode n"
| "inlineSelection (FragmentSelection incl d cond sels) =
     (getDeferValues d = None \<and> list_all inlineSelection sels)"

definition inlineGroup :: "fieldGroup \<Rightarrow> bool" where
  "inlineGroup g = list_all (\<lambda>entry. list_all inlineNode (snd entry)) g"

text \<open>
  Relations between the state before and after a call that hold across every update of the
  state the executor makes; with \<open>inline\<close> set, across every update other than those of the
  dispatcher's queue. \<open>distinctPayloads\<close>: the promises of the queue have distinct
  identities, all below the next one to be given out.
\<close>

definition stateOrder :: "bool \<Rightarrow> (exeState \<Rightarrow> exeState \<Rightarrow> bool) \<Rightarrow> bool" where
  "stateOrder inline R \<longleftrightarrow>
     (\<forall>st. R st st) \<and> (\<forall>a b c. R a b \<longrightarrow> R b c \<longrightarrow> R a c) \<and>
     (\<forall>r t e st. R st (pushError r t e st)) \<and>
     (\<forall>st. R st (snd (newErrorList st))) \<and>
     (\<forall>e st. R st (logEvent e st)) \<and>
     (\<not> inline \<longrightarrow>
        (\<forall>t pr st. R st (snd (pushPayload t pr st))) \<and>
        (\<forall>i pr st. R st (settlePayload i pr st)))"

definition distinctPayloads :: "exeState \<Rightarrow> bool" where
  "distinctPayloads st \<longleftrightarrow>
     distinct (map pid (subsequentPayloads st)) \<and>
     (\<forall>q\<in>set (subsequentPayloads st). pid q < nextPid st)"



text \<open>
  The async sequence that \<open>execute\<close> returned, with the time at which it was there, and
  what a consumer gets who calls \<^verbatim>\<open>next()\<close> a number of times, each call when the one
  before has settled.
\<close>

fun returnedSequence :: "gerror + executed promiseOrValue \<Rightarrow> (nat \<times> dispatcher) option" where
  "returnedSequence (Inr (Value (AsyncIterable d))) = Some (0, d)"
| "returnedSequence (Inr (Promise (Fulfilled t (AsyncIterable d)))) = Some (t, d)"
| "returnedSequence r = None"

fun nextResults ::
  "(payloadPromise list \<Rightarrow> nat) \<Rightarrow> nat \<Rightarrow> dispatcher \<Rightarrow> nat
     \<Rightarrow> asyncExecutionResult iteratorResult list" where
  "nextResults tie 0 d now = []"
| "nextResults tie (Suc n) d now =
     (case dispatcher_next tie d now of
        None \<Rightarrow> []
      | Some r \<Rightarrow> fst r # nextResults tie n (fst (snd r)) (snd (snd r)))"

section \<open>Example schemas and requests\<close>

text \<open>
  The scalar \<^verbatim>\<open>String\<close> with its \<^verbatim>\<open>serializeString\<close>: strings, numbers and booleans
  are turned into strings, any other value is refused. (\<^verbatim>\<open>valueOf\<close> of the values of
  the model returns the value itself.)
\<close>

definition serializeString :: "raw \<Rightarrow> gerror + raw" where
  "serializeString v =
     (case v of
        RPrim (JStr s) \<Rightarrow> Inr (RPrim (JStr s))
      | RPrim (JNum n) \<Rightarrow> Inr (RPrim (JStr (showInt n)))
      | RPrim (JBool b) \<Rightarrow> Inr (RPrim (JStr (if b then ''true'' else ''false'')))
      | _ \<Rightarrow> Inl (Error (''String cannot represent value: '' @ inspect v)))"

definition GraphQLString :: gtype where
  "GraphQLString = LeafT ''String'' serializeString"

text \<open>
  The schema of \<^verbatim>\<open>src/execution/__tests__/sync-test.ts\<close>: a query root with a
  synchronous and an asynchronous field that both return the root value, and a mutation root.
\<close>

definition metaField :: "string \<Rightarrow> fieldDef" where
  "metaField name =
     \<lparr>fdName = name, fdType = NonNullT GraphQLString,
      fdResolve = Some (\<lambda>source as info. Inr (RPrim (JStr (infoParentType info))))\<rparr>"

definition syncTestSchema :: schema where
  "syncTestSchema =
     \<lparr>getRootType = (\<lambda>k. case k of QUERY \<Rightarrow> Some ''Query'' | MUTATION \<Rightarrow> Some ''Mutation''
                             | SUBSCRIPTION \<Rightarrow> None),
      getType = (\<lambda>n. if n = ''Query'' \<or> n = ''Mutation'' then Some ObjectKind
                      else if n = ''String'' then Some ScalarKind else None),
      getPossibleTypes = (\<lambda>n. []),
      isSubType = (\<lambda>a t. False),
      getFields = (\<lambda>t f.
        if t = ''Query'' \<and> f = ''syncField''
        then Some \<lparr>fdName = ''syncField'', fdType = GraphQLString,
                   fdResolve = Some (\<lambda>rootValue as info. Inr rootValue)\<rparr>
        else if t = ''Query'' \<and> f = ''asyncField''
        then Some \<lparr>fdName = ''asyncField'', fdType = GraphQLString,
                   fdResolve = Some (\<lambda>rootValue as info. Inr (RPromise 1 rootValue))\<rparr>
        else if t = ''Mutation'' \<and> f = ''syncMutationField''
        then Some \<lparr>fdName = ''syncMutationField'', fdType = GraphQLString,
                   fdResolve = Some (\<lambda>rootValue as info. Inr rootValue)\<rparr>
        else None),
      isTypeOf = (\<lambda>t. None),
      SchemaMetaFieldDef = metaField ''__schema'',
      TypeMetaFieldDef = metaField ''__type'',
      TypeNameMetaFieldDef = metaField ''__typename'',
      schemaValidationErrors = []\<rparr>"

definition plainField :: "string \<Rightarrow> selection" where
  "plainField name = FieldSelection (FieldNode None name [] None [])"

definition exampleOperation :: "operationType \<Rightarrow> selection list \<Rightarrow> definitionNode" where
  "exampleOperation kind sels =
     OperationDefinition
       \<lparr>opName = Some ''Example'', operation = kind, variableDefinitions = None,
        opSelectionSet = sels\<rparr>"

definition request ::
  "schema \<Rightarrow> definitionNode list \<Rightarrow> raw \<Rightarrow> string option \<Rightarrow> gerror list \<Rightarrow> executionArgs" where
  "request s ds rootValue operationName variableErrors =
     \<lparr>argSchema = s, argDocument = Some ds, argRootValue = rootValue,
      argVariableValues = RUndefined, argOperationName = operationName,
      argFieldResolver = None, argTypeResolver = None,
      coerceVariableValues = (\<lambda>s defs inputs. (variableErrors, [])),
      coerceArgumentValues = (\<lambda>fd node. Inr (arguments node))\<rparr>"

definition exampleFragment :: definitionNode where
  "exampleFragment =
     FragmentDefinition
       \<lparr>fragName = ''Example'', fragTypeCondition = ''Query'',
        fragSelectionSet = [plainField ''syncField'']\<rparr>"


text \<open>
  A schema with an object type, an interface with two implementations, non-null and list
  fields and a field whose resolver throws. Fields without a resolve function use the
  default resolver, so the root value determines what they resolve to. No resolver of this
  schema returns a future.
\<close>

definition field :: "string \<Rightarrow> gtype \<Rightarrow> fieldDef" where
  "field name t = \<lparr>fdName = name, fdType = t, fdResolve = None\<rparr>"

definition resolvedField :: "string \<Rightarrow> gtype \<Rightarrow> fieldResolverFn \<Rightarrow> fieldDef" where
  "resolvedField name t f = \<lparr>fdName = name, fdType = t, fdResolve = Some f\<rparr>"

definition exampleFields :: "string \<Rightarrow> string \<Rightarrow> fieldDef option" where
  "exampleFields t f =
     (if t = ''Query'' then
        (if f = ''name'' then Some (field ''name'' (NonNullT GraphQLString))
         else if f = ''title'' then Some (field ''title'' GraphQLString)
         else if f = ''friend'' then Some (field ''friend'' (ObjectT ''Person''))
         else if f = ''tags'' then Some (field ''tags'' (ListT GraphQLString))
         else if f = ''scores'' then Some (field ''scores'' (ListT (NonNullT GraphQLString)))
         else if f = ''hero'' then Some (field ''hero'' (AbstractT ''Character'' None))
         else if f = ''feed'' then Some (field ''feed'' (ListT GraphQLString))
         else if f = ''fail''
         then Some (resolvedField ''fail'' GraphQLString (\<lambda>source as info. Inl (Error ''boom'')))
         else None)
      else if t = ''Person'' then
        (if f = ''name'' then Some (field ''name'' (NonNullT GraphQLString))
         else if f = ''nick'' then Some (field ''nick'' GraphQLString)
         else if f = ''fail''
         then Some (resolvedField ''fail'' GraphQLString (\<lambda>source as info. Inl (Error ''boom'')))
         else None)
      else if t = ''Human'' \<or> t = ''Droid'' then
        (if f = ''name'' then Some (field ''name'' GraphQLString) else None)
      else None)"

definition exampleSchema :: schema where
  "exampleSchema =
     \<lparr>getRootType = (\<lambda>k. case k of QUERY \<Rightarrow> Some ''Query'' | MUTATION \<Rightarrow> None
                             | SUBSCRIPTION \<Rightarrow> None),
      getType = (\<lambda>n. if n \<in> set [''Query'', ''Person'', ''Human'', ''Droid'']
                      then Some ObjectKind
                      else if n = ''Character'' then Some InterfaceKind
                      else if n = ''String'' then Some ScalarKind else None),
      getPossibleTypes = (\<lambda>n. if n = ''Character'' then [''Human'', ''Droid''] else []),
      isSubType = (\<lambda>a t. a = ''Character'' \<and> (t = ''Human'' \<or> t = ''Droid'')),
      getFields = exampleFields,
      isTypeOf = (\<lambda>t. None),
      SchemaMetaFieldDef = metaField ''__schema'',
      TypeMetaFieldDef = metaField ''__type'',
      TypeNameMetaFieldDef = metaField ''__typename'',
      schemaValidationErrors = []\<rparr>"

text \<open>
  The same schema with a mutation root whose first field returns a future that settles five
  time units after the call; the other two answer at once.
\<close>

definition mutationFields :: "string \<Rightarrow> string \<Rightarrow> fieldDef option" where
  "mutationFields t f =
     (if t = ''Mutation'' then
        (if f = ''first''
         then Some (resolvedField ''first'' GraphQLString
                      (\<lambda>source as info. Inr (RPromise 5 (RPrim (JStr ''one'')))))
         else if f = ''second''
         then Some (resolvedField ''second'' GraphQLString
                      (\<lambda>source as info. Inr (RPrim (JStr ''two''))))
         else if f = ''third''
         then Some (resolvedField ''third'' GraphQLString
                      (\<lambda>source as info. Inr (RPrim (JStr ''three''))))
         else None)
      else exampleFields t f)"

definition mutationSchema :: schema where
  "mutationSchema =
     exampleSchema
       \<lparr>getRootType := (\<lambda>k. case k of QUERY \<Rightarrow> Some ''Query'' | MUTATION \<Rightarrow> Some ''Mutation''
                               | SUBSCRIPTION \<Rightarrow> None),
        getFields := mutationFields\<rparr>"

definition exampleContext :: "schema \<Rightarrow> exeContext" where
  "exampleContext s =
     \<lparr>ctxSchema = s, ctxFragments = (\<lambda>_. None), ctxRootValue = RNull,
      ctxOperation = \<lparr>opName = None, operation = QUERY, variableDefinitions = None,
                      opSelectionSet = []\<rparr>,
      ctxVariableValues = [], ctxFieldResolver = defaultFieldResolver,
      ctxTypeResolver = defaultTypeResolver s,
      getArgumentValues = (\<lambda>fd node. Inr (arguments node))\<rparr>"

definition fieldWith :: "string \<Rightarrow> selection list \<Rightarrow> fieldNode" where
  "fieldWith name sels = FieldNode None name [] None sels"

definition streamed :: "string \<Rightarrow> int \<Rightarrow> fieldNode" where
  "streamed name n =
     FieldNode None name []
       (Some \<lparr>streamIf = JUndefined, streamInitialCount = JPrim (JNum n), streamLabel = JUndefined\<rparr>)
       []"

definition deferred :: "selection list \<Rightarrow> selection" where
  "deferred sels =
     FragmentSelection True (Some \<lparr>deferIf = JUndefined, deferLabel = JUndefined\<rparr>) None sels"

definition exampleRoot :: raw where
  "exampleRoot =
     RObject [(''friend'', RObject [(''nick'', RPrim (JStr ''al''))]),
              (''title'', RPrim (JStr ''t'')),
              (''tags'', RArray [RPrim (JStr ''a''), RPrim (JStr ''b''), RPrim (JStr ''c'')])]"


definition heroRoot :: "string \<Rightarrow> raw" where
  "heroRoot typeName =
     RObject [(''hero'', RObject [(''__typename'', RPrim (JStr typeName)),
                                  (''name'', RPrim (JStr ''Luke''))])]"


definition examplePatch :: "nat \<Rightarrow> string \<Rightarrow> dispatcherResult" where
  "examplePatch i v =
     \<lparr>drData = CLeaf (RPrim (JStr v)), drPath = [Key ''tags'', Index i], drLabel = None,
      drErrors = None\<rparr>"

definition exampleDispatcher :: "payloadPromise list \<Rightarrow> dispatcher" where
  "exampleDispatcher qs =
     \<lparr>payloads = qs, initialResult = Some \<lparr>resultErrors = None, resultData = Some CNull\<rparr>,
      hasReturnedInitialResult = True, payloadErrors = (\<lambda>_. [])\<rparr>"


text \<open>
  A root value whose \<open>feed\<close> is an async sequence of two elements, and the patch of a
  deferred fragment that selects \<open>title\<close> at the operation root.
\<close>

definition tagsRoot :: raw where
  "tagsRoot =
     RObject [(''feed'',
        RAsyncIterable [PYield 1 (RPrim (JStr ''a'')), PYield 1 (RPrim (JStr ''b''))])]"

definition titlePatch :: dispatcherResult where
  "titlePatch =
     \<lparr>drData = CObject [(''title'', CLeaf (RPrim (JStr ''t'')))], drPath = [], drLabel = None,
      drErrors = None\<rparr>"

definition feedRoot :: raw where
  "feedRoot =
     RObject [(''feed'',
        RAsyncIterable
          [PYield 1 (RPrim (JStr ''a'')), PYield 1 (RObject []), PYield 1 (RPrim (JStr ''c'')),
           PYield 1 (RObject []), PYield 1 (RPrim (JStr ''e''))])]"

text \<open>A mutation that selects the three fields of the mutation root.\<close>

definition serialMutation :: operationDefinitionNode where
  "serialMutation =
     \<lparr>opName = Some ''Example'', operation = MUTATION, variableDefinitions = None,
      opSelectionSet = [plainField ''first'', plainField ''second'', plainField ''third'']\<rparr>"

lemmas executor_simps =
  executeFields.simps executeField.simps completeValue.simps completeListValue.simps
  completeListItems.simps addValue.simps completeAsyncIteratorValue.simps asyncNext.simps
  addAsyncIteratorValue.simps completeAbstractValue.simps completeObjectValue.simps
  collectAndExecuteSubfields.simps executeSubPatches.simps

lemmas example_defs =
  request_def exampleOperation_def plainField_def exampleFragment_def syncTestSchema_def
  exampleSchema_def exampleFields_def exampleContext_def field_def resolvedField_def
  metaField_def GraphQLString_def serializeString_def fieldWith_def streamed_def deferred_def
  exampleRoot_def heroRoot_def examplePatch_def exampleDispatcher_def mutationFields_def
  mutationSchema_def feedRoot_def tagsRoot_def titlePatch_def

lemmas executor_defs =
  execute_def executeSync_def assertValidExecutionArguments_def buildExecutionContext_def
  getVariableValues_def executeOperation_def executeFieldsSerially_def serialCallback_def
  collectFields_def collectSubfields_def responseName_def getDeferValues_def
  doesFragmentConditionMatch_def getFieldDef_def getQueryType_def addPath_def
  buildResolveInfo_def logEvent_def initialState_def completeLeafValue_def leafResult_def
  toLeaf_def errorsAt_def queueAt_def propertyOf_def isFunction_def showInt_def
  respond_def respondError_def buildResponse_def hasSubsequentPayloads_def
  handleFieldError_def catchFieldError_def locatedError_def cannotReturnNull_def Error_def
  GraphQLError_def pushError_def newErrorList_def pushPayload_def settlePayload_def
  patchPayload_def addFields_def createPatchResult_def pathToArrayOpt_def getStreamValues_def
  streamsFrom_def streamLabelOf_def resolveOnce_def promiseForObject_def promiseAll_def
  defaultFieldResolver_def defaultTypeResolver_def ensureValidRuntimeType_def
  invalidReturnTypeError_def dispatcher_get_def Let_def
section \<open>The state across a call\<close>

lemma inlineNode_selectionSet: "inlineNode n \<Longrightarrow> list_all inlineSelection (selectionSet n)"
  by (cases n) simp

lemma getStreamValues_head: "getStreamValues (n # ns) = getStreamValues [n]"
  by (simp add: getStreamValues_def)

lemma inlineNode_stream: "inlineNode n \<Longrightarrow> getStreamValues (n # ns) = Inr None"
  by (cases n) (simp add: getStreamValues_head[of _ ns])

lemma inlineNodes_stream:
  "list_all inlineNode fieldNodes \<Longrightarrow> getStreamValues fieldNodes = Inr stream \<Longrightarrow> stream = None"
  by (cases fieldNodes) (auto simp: inlineNode_stream, simp add: getStreamValues_def)

lemma inlineGroup_groupAppend:
  "inlineGroup g \<Longrightarrow> inlineNode n \<Longrightarrow> inlineGroup (groupAppend k n g)"
  unfolding inlineGroup_def by (induction k n g rule: groupAppend.induct) auto

lemma collectFieldsImpl_inline:
  "list_all inlineSelection sels \<Longrightarrow> inlineGroup (fst acc) \<Longrightarrow>
   inlineGroup (fst (collectFieldsImpl s t sels acc)) \<and>
   snd (collectFieldsImpl s t sels acc) = snd acc"
proof (induction s t sels acc rule: collectFieldsImpl.induct)
  case (1 s t acc)
  then show ?case by simp
next
  case (2 s t n sels acc)
  then show ?case by (simp add: inlineGroup_groupAppend)
next
  case (3 s t incl d cond sub sels acc)
  then show ?case by (auto simp: Let_def split: option.splits)
qed

lemma collectSubfieldsFrom_inline:
  "list_all inlineNode ns \<Longrightarrow> inlineGroup (fst acc) \<Longrightarrow>
   inlineGroup (fst (collectSubfieldsFrom s t ns acc)) \<and>
   snd (collectSubfieldsFrom s t ns acc) = snd acc"
  by (induction ns arbitrary: acc) (auto simp: collectFieldsImpl_inline inlineNode_selectionSet)

lemma collectSubfields_inline:
  "list_all inlineNode ns \<Longrightarrow>
   inlineGroup (fst (collectSubfields s t ns)) \<and> snd (collectSubfields s t ns) = []"
  unfolding collectSubfields_def
  using collectSubfieldsFrom_inline[of ns "([], [])" s t] by (simp add: inlineGroup_def)

lemma collectFields_inline:
  "list_all inlineSelection sels \<Longrightarrow>
   inlineGroup (fst (collectFields s t sels)) \<and> snd (collectFields s t sels) = []"
  unfolding collectFields_def
  using collectFieldsImpl_inline[of sels "([], [])" s t] by (simp add: inlineGroup_def)

lemma stateOrder_refl: "stateOrder inline R \<Longrightarrow> R st st"
  by (simp add: stateOrder_def)

lemma stateOrder_trans: "stateOrder inline R \<Longrightarrow> R a b \<Longrightarrow> R b c \<Longrightarrow> R a c"
  unfolding stateOrder_def by blast

lemma stateOrder_pushError: "stateOrder inline R \<Longrightarrow> R st (pushError r t e st)"
  by (simp add: stateOrder_def)

lemma stateOrder_newErrorList: "stateOrder inline R \<Longrightarrow> R st (snd (newErrorList st))"
  by (simp add: stateOrder_def)

lemma stateOrder_pushPayload:
  "stateOrder inline R \<Longrightarrow> \<not> inline \<Longrightarrow> R st (snd (pushPayload t pr st))"
  by (simp add: stateOrder_def)

lemma stateOrder_settlePayload:
  "stateOrder inline R \<Longrightarrow> \<not> inline \<Longrightarrow> R st (settlePayload i pr st)"
  by (simp add: stateOrder_def)

lemma stateOrder_logEvent: "stateOrder inline R \<Longrightarrow> R st (logEvent e st)"
  by (simp add: stateOrder_def)

lemma stateOrder_handleFieldError:
  "stateOrder inline R \<Longrightarrow> R st (snd (handleFieldError e returnType errors t st))"
  by (simp add: handleFieldError_def stateOrder_refl stateOrder_pushError)

lemma stateOrder_catchFieldError:
  "stateOrder inline R \<Longrightarrow> R st (snd (catchFieldError fieldNodes q returnType errors pr st))"
  by (cases pr)
     (auto simp: catchFieldError_def handleFieldError_def stateOrder_refl stateOrder_pushError)

lemma stateOrder_addFields:
  "stateOrder inline R \<Longrightarrow> \<not> inline \<Longrightarrow>
   R st (addFields promiseOrData errors label p now st)"
  by (simp add: addFields_def stateOrder_pushPayload)

lemma stateOrder_handled:
  assumes "stateOrder inline R" and "R st st1"
  shows "R st (snd (case handleFieldError e returnType errors t st1 of
                      (Inl e, st2) \<Rightarrow> (Inl e, st2)
                    | (Inr v, st2) \<Rightarrow> (Inr (f v), st2)))"
proof -
  have "R st1 (snd (handleFieldError e returnType errors t st1))"
    using assms(1) by (rule stateOrder_handleFieldError)
  with assms have "R st (snd (handleFieldError e returnType errors t st1))"
    by (blast intro: stateOrder_trans)
  then show ?thesis by (auto split: prod.splits sum.splits)
qed

lemma stateOrder_caught:
  assumes "stateOrder inline R" and "R st st1"
  shows "R st (snd (catchFieldError fieldNodes q returnType errors pr st1))"
  using assms stateOrder_catchFieldError[OF assms(1), of st1 fieldNodes q returnType errors pr]
  by (blast intro: stateOrder_trans)

lemma executor_state:
  assumes so: "stateOrder inline R"
  shows "(inline \<longrightarrow> inlineGroup fieldMap) \<Longrightarrow>
         R st (snd (executeFields ctx parentType sourceValue p1 fieldMap errors now results st))"
    and "(inline \<longrightarrow> list_all inlineNode fieldNodes) \<Longrightarrow>
         R st (snd (executeField ctx parentType source fieldNodes p errors now st))"
    and "(inline \<longrightarrow> list_all inlineNode fieldNodes) \<Longrightarrow>
         R st (snd (completeValue ctx returnType fieldNodes info p result errors now st))"
    and "(inline \<longrightarrow> list_all inlineNode fieldNodes) \<Longrightarrow>
         R st (snd (completeListValue ctx itemType fieldNodes info p result errors now st))"
    and "(inline \<longrightarrow> list_all inlineNode fieldNodes \<and> stream = None) \<Longrightarrow>
         R st (snd (completeListItems ctx itemType fieldNodes info p stream items index
                      completedResults errors now st))"
    and "\<not> inline \<Longrightarrow> R st (addValue ctx p promiseOrData fieldNodes info itemType label now st)"
    and "(inline \<longrightarrow> list_all inlineNode fieldNodes) \<Longrightarrow>
         R st (snd (completeAsyncIteratorValue ctx itemType fieldNodes info p iterator errors
                      now st))"
    and "(inline \<longrightarrow> list_all inlineNode fieldNodes \<and> stream = None) \<Longrightarrow>
         R st (snd (snd (asyncNext ctx itemType fieldNodes info p stream iterator index
                           completedResults containsPromise resolved errors now st)))"
    and "\<not> inline \<Longrightarrow>
         R st (addAsyncIteratorValue ctx index iterator fieldNodes info itemType p2 label now st)"
    and "(inline \<longrightarrow> list_all inlineNode fieldNodes) \<Longrightarrow>
         R st (snd (completeAbstractValue ctx abstractName resolveType fieldNodes info p result
                      errors now st))"
    and "(inline \<longrightarrow> list_all inlineNode fieldNodes) \<Longrightarrow>
         R st (snd (completeObjectValue ctx objectName fieldNodes info p result errors now st))"
    and "(inline \<longrightarrow> list_all inlineNode fieldNodes) \<Longrightarrow>
         R st (snd (collectAndExecuteSubfields ctx objectName fieldNodes p result errors now st))"
    and "(inline \<longrightarrow> subPatches = []) \<Longrightarrow>
         R st (snd (executeSubPatches ctx objectName result p subPatches now st))"
proof (induction ctx parentType sourceValue p1 fieldMap errors now results st
    and ctx parentType source fieldNodes p errors now st
    and ctx returnType fieldNodes info p result errors now st
    and ctx itemType fieldNodes info p result errors now st
    and ctx itemType fieldNodes info p stream items index completedResults errors now st
    and ctx p promiseOrData fieldNodes info itemType label now st
    and ctx itemType fieldNodes info p iterator errors now st
    and ctx itemType fieldNodes info p stream iterator index completedResults containsPromise
        resolved errors now st
    and ctx index iterator fieldNodes info itemType p2 label now st
    and ctx abstractName resolveType fieldNodes info p result errors now st
    and ctx objectName fieldNodes info p result errors now st
    and ctx objectName fieldNodes p result errors now st
    and ctx objectName result p subPatches now st
    rule: executeFields_executeField_completeValue_completeListValue_completeListItems_addValue_completeAsyncIteratorValue_asyncNext_addAsyncIteratorValue_completeAbstractValue_completeObjectValue_collectAndExecuteSubfields_executeSubPatches.induct)
  case (1 ctx parentType sourceValue p fieldMap errors now results st)
  note rf = stateOrder_refl[OF so] and tr = stateOrder_trans[OF so]
  show ?case
  proof (cases fieldMap)
    case Nil
    then show ?thesis by (subst executeFields.simps) (simp add: rf)
  next
    case (Cons entry rest)
    let ?fp = "addPath p (Key (fst entry)) (Some parentType)"
    from "1.prems" Cons have hn: "inline \<longrightarrow> list_all inlineNode (snd entry)"
      and hr: "inline \<longrightarrow> inlineGroup rest"
      by (simp_all add: inlineGroup_def)
    obtain x y where xy: "executeField ctx parentType sourceValue (snd entry) ?fp errors now st = (x, y)"
      by fastforce
    have f: "R st y" using "1.IH"(1)[OF Cons hn] xy by simp
    show ?thesis
    proof (cases x)
      case (Inl e)
      with Cons xy f show ?thesis by (subst executeFields.simps) simp
    next
      case (Inr b)
      show ?thesis
      proof (cases b)
        case None
        from f "1.IH"(2)[OF Cons xy[symmetric] Inr None hr]
        have "R st (snd (executeFields ctx parentType sourceValue p rest errors now results y))"
          by (rule tr)
        with Cons xy Inr None show ?thesis by (subst executeFields.simps) simp
      next
        case (Some r)
        from f "1.IH"(3)[OF Cons xy[symmetric] Inr Some hr]
        have "R st (snd (executeFields ctx parentType sourceValue p rest errors now
                           (objSet (fst entry) r results) y))"
          by (rule tr)
        with Cons xy Inr Some show ?thesis by (subst executeFields.simps) simp
      qed
    qed
  qed
next
  case (2 ctx parentType source fieldNodes p errors now st)
  note rf = stateOrder_refl[OF so] and tr = stateOrder_trans[OF so]
  have opt: "R st (snd r)"
    if "R st (snd attempt)"
      and "r = (case attempt of
                  (Inl rawError, st1) \<Rightarrow>
                    (case handleFieldError (locatedError rawError fieldNodes (pathToArray p))
                            returnType errors now st1 of
                       (Inl e, st2) \<Rightarrow> (Inl e, st2)
                     | (Inr v, st2) \<Rightarrow> (Inr (Some (Value v)), st2))
                | (Inr (Value v), st1) \<Rightarrow> (Inr (Some (Value v)), st1)
                | (Inr (Promise pr), st1) \<Rightarrow>
                    (case catchFieldError fieldNodes (pathToArray p) returnType errors pr st1 of
                       (pr', st2) \<Rightarrow> (Inr (Some (Promise pr')), st2)))"
    for attempt returnType and r :: "(gerror + cval promiseOrValue option) \<times> exeState"
  proof -
    obtain a st1 where at: "attempt = (a, st1)" by fastforce
    from that(1) at have ev: "R st st1" by simp
    show ?thesis
    proof (cases a)
      case (Inl rawError)
      from stateOrder_handled[OF so ev, where e = "locatedError rawError fieldNodes (pathToArray p)"
          and returnType = returnType and errors = errors and t = now
          and f = "\<lambda>v. Some (Value v)"] that(2) at Inl
      show ?thesis by simp
    next
      case (Inr c)
      show ?thesis
      proof (cases c)
        case (Value v)
        with that(2) at ev Inr show ?thesis by simp
      next
        case (Promise pr)
        from stateOrder_caught[OF so ev, of fieldNodes "pathToArray p" returnType errors pr]
          that(2) at Inr Promise
        show ?thesis by (simp split: prod.splits)
      qed
    qed
  qed
  show ?case
  proof (cases fieldNodes)
    case Nil
    then show ?thesis by (simp add: executeField.simps rf)
  next
    case (Cons node others)
    show ?thesis
    proof (cases "getFieldDef (ctxSchema ctx) parentType node")
      case None
      with Cons show ?thesis by (simp add: executeField.simps rf)
    next
      case (Some fd)
      let ?info = "buildResolveInfo ctx fd fieldNodes parentType p"
      let ?f = "case fdResolve fd of None \<Rightarrow> ctxFieldResolver ctx | Some f \<Rightarrow> f"
      let ?st0 = "logEvent (ResolverCalled (pathToArray p) now) st"
      have st0: "R st ?st0" using so by (rule stateOrder_logEvent)
      let ?attempt = "case getArgumentValues ctx fd node of
                         Inl e \<Rightarrow> (Inl e, st)
                       | Inr args \<Rightarrow>
                           (case ?f source args ?info of
                              Inl e \<Rightarrow> (Inl e, ?st0)
                            | Inr result \<Rightarrow>
                                if isPromise result then
                                  (case settleRaw now result of
                                     Fulfilled t resolved \<Rightarrow>
                                       (let r = completeValue ctx (fdType fd) fieldNodes ?info p
                                                  resolved errors t ?st0
                                        in (Inr (Promise (settleWith t (fst r))), snd r))
                                   | Rejected t e \<Rightarrow> (Inr (Promise (Rejected t e)), ?st0)
                                   | Unsettled \<Rightarrow> (Inr (Promise Unsettled), ?st0))
                                else completeValue ctx (fdType fd) fieldNodes ?info p result
                                       errors now ?st0)"
      have att: "R st (snd ?attempt)"
      proof (cases "getArgumentValues ctx fd node")
        case (Inl e)
        then show ?thesis by (simp add: rf)
      next
        case (Inr as)
        show ?thesis
        proof (cases "?f source as ?info")
          case e: (Inl e)
          with Inr st0 show ?thesis by simp
        next
          case r: (Inr v)
          show ?thesis
          proof (cases "isPromise v")
            case True
            show ?thesis
            proof (cases "settleRaw now v")
              case Unsettled
              with Inr r True st0 show ?thesis by simp
            next
              case (Rejected t e)
              with Inr r True st0 show ?thesis by simp
            next
              case (Fulfilled t resolved)
              from st0 "2.IH"(1)[OF Cons Some refl refl refl Inr refl r True Fulfilled "2.prems"]
              have "R st (snd (completeValue ctx (fdType fd) fieldNodes ?info p resolved errors t ?st0))"
                by (rule tr)
              with Fulfilled Inr r True show ?thesis by (simp add: Let_def)
            qed
          next
            case False
            from st0 "2.IH"(2)[OF Cons Some refl refl refl Inr refl r False "2.prems"]
            have "R st (snd (completeValue ctx (fdType fd) fieldNodes ?info p v errors now ?st0))"
              by (rule tr)
            with Inr r False show ?thesis by simp
          qed
        qed
      qed
      show ?thesis
      proof (rule opt[OF att, where returnType = "fdType fd"])
        show "executeField ctx parentType source fieldNodes p errors now st =
          (case ?attempt of
             (Inl rawError, st1) \<Rightarrow>
               (case handleFieldError (locatedError rawError fieldNodes (pathToArray p))
                       (fdType fd) errors now st1 of
                  (Inl e, st2) \<Rightarrow> (Inl e, st2)
                | (Inr v, st2) \<Rightarrow> (Inr (Some (Value v)), st2))
           | (Inr (Value v), st1) \<Rightarrow> (Inr (Some (Value v)), st1)
           | (Inr (Promise pr), st1) \<Rightarrow>
               (case catchFieldError fieldNodes (pathToArray p) (fdType fd) errors pr st1 of
                  (pr', st2) \<Rightarrow> (Inr (Some (Promise pr')), st2)))"
          unfolding executeField.simps Let_def Cons list.case Some option.case by (rule refl)
      qed
    qed
  qed
next
  case (3 ctx returnType fieldNodes info p result errors now st)
  note rf = stateOrder_refl[OF so] and tr = stateOrder_trans[OF so]
  show ?case
  proof (cases "errorInstance result")
    case (Some e)
    then show ?thesis by (subst completeValue.simps) (simp add: rf)
  next
    case None
    show ?thesis
    proof (cases "isNonNullType returnType")
      case True
      from "3.IH"(1)[OF None True "3.prems"] None True
      show ?thesis
        by (subst completeValue.simps) (auto simp: Let_def)
    next
      case nn: False
      show ?thesis
      proof (cases "isNullish result")
        case True
        with None nn show ?thesis by (subst completeValue.simps) (simp add: rf)
      next
        case nu: False
        show ?thesis
        proof (cases "isListType returnType")
          case True
          from "3.IH"(2)[OF None nn nu True "3.prems"] None nn nu True
          show ?thesis by (subst completeValue.simps) simp
        next
          case nl: False
          show ?thesis
          proof (cases returnType)
            case (NonNullT t)
            with nn show ?thesis by simp
          next
            case (ListT t)
            with nl show ?thesis by simp
          next
            case (LeafT name serialize)
            with None nn nu nl show ?thesis
              by (subst completeValue.simps) (simp add: rf split: sum.splits)
          next
            case (AbstractT name resolveType)
            from "3.IH"(3)[OF None nn nu nl AbstractT "3.prems"] AbstractT None nn nu nl
            show ?thesis by (subst completeValue.simps) simp
          next
            case (ObjectT name)
            from "3.IH"(4)[OF None nn nu nl ObjectT "3.prems"] ObjectT None nn nu nl
            show ?thesis by (subst completeValue.simps) simp
          qed
        qed
      qed
    qed
  qed
next
  case (4 ctx itemType fieldNodes info p result errors now st)
  note rf = stateOrder_refl[OF so] and tr = stateOrder_trans[OF so]
  show ?case
  proof (cases "asyncIterator result")
    case (Some iterator)
    from "4.IH"(2)[OF Some "4.prems"] Some
    show ?thesis by (subst completeListValue.simps) simp
  next
    case None
    show ?thesis
    proof (cases "iterableItems result")
      case n: None
      with None show ?thesis by (subst completeListValue.simps) (simp add: rf)
    next
      case (Some items)
      show ?thesis
      proof (cases "getStreamValues fieldNodes")
        case (Inl e)
        with None Some show ?thesis
          by (subst completeListValue.simps) (simp add: rf)
      next
        case (Inr stream)
        from "4.prems" Inr have h5: "inline \<longrightarrow> list_all inlineNode fieldNodes \<and> stream = None"
          by (auto dest: inlineNodes_stream)
        from "4.IH"(1)[OF None Some Inr h5] None Some Inr
        show ?thesis by (subst completeListValue.simps) simp
      qed
    qed
  qed
next
  case (5 ctx itemType fieldNodes info p stream items index completedResults errors now st)
  note rf = stateOrder_refl[OF so] and tr = stateOrder_trans[OF so]
  show ?case
  proof (cases items)
    case Nil
    then show ?thesis
      by (subst completeListItems.simps) (simp add: rf)
  next
    case (Cons item rest)
    let ?ip = "addPath (Some p) (Index index) None"
    from "5.prems" have hn: "inline \<longrightarrow> list_all inlineNode fieldNodes" by simp
    show ?thesis
    proof (cases "streamsFrom stream index")
      case True
      with "5.prems" have ninl: "\<not> inline" by (auto simp: streamsFrom_def)
      let ?st1 = "addValue ctx ?ip item fieldNodes info itemType (streamLabelOf stream) now st"
      from "5.IH"(1)[OF Cons refl True ninl] "5.IH"(2)[OF Cons refl True "5.prems"]
      have "R st (snd (completeListItems ctx itemType fieldNodes info p stream rest (Suc index)
             completedResults errors now ?st1))"
        by (rule tr)
      with Cons True show ?thesis by (subst completeListItems.simps) (simp add: Let_def)
    next
      case False
      let ?step = "if isPromise item
            then case settleRaw now item of
                 Unsettled \<Rightarrow> (Inr (Promise Unsettled), st)
                 | Fulfilled t resolved \<Rightarrow>
                     let r = completeValue ctx itemType fieldNodes info ?ip
                              resolved errors t st;
                         c = catchFieldError fieldNodes (pathToArray ?ip)
                              itemType errors (settleWith t (fst r)) (snd r)
                     in (Inr (Promise (fst c)), snd c)
                 | Rejected t e \<Rightarrow>
                     let c = catchFieldError fieldNodes (pathToArray ?ip)
                              itemType errors (Rejected t e) st
                     in (Inr (Promise (fst c)), snd c)
            else case completeValue ctx itemType fieldNodes info ?ip item
                       errors now st of
                 (Inl rawError, st1) \<Rightarrow>
                   case handleFieldError
                         (locatedError rawError fieldNodes (pathToArray ?ip))
                         itemType errors now st1 of
                   (Inl e, st2) \<Rightarrow> (Inl e, st2)
                   | (Inr v, st2) \<Rightarrow> (Inr (Value v), st2)
                 | (Inr (Value v), st1) \<Rightarrow> (Inr (Value v), st1)
                 | (Inr (Promise pr), st1) \<Rightarrow>
                     let c = catchFieldError fieldNodes (pathToArray ?ip)
                              itemType errors pr st1
                     in (Inr (Promise (fst c)), snd c)"
      have step: "R st (snd ?step)"
      proof (cases "isPromise item")
        case True
        show ?thesis
        proof (cases "settleRaw now item")
          case Unsettled
          with True show ?thesis by (simp add: rf)
        next
          case (Rejected t e)
          with True show ?thesis
            by (simp add: Let_def stateOrder_catchFieldError[OF so])
        next
          case (Fulfilled t resolved)
          let ?r = "completeValue ctx itemType fieldNodes info ?ip resolved errors t st"
          have r: "R st (snd ?r)"
            using "5.IH"(3)[OF Cons refl False True Fulfilled hn] .
          from stateOrder_caught[OF so r] Fulfilled True show ?thesis
            by (simp add: Let_def)
        qed
      next
        case np: False
        obtain a st1 where c: "completeValue ctx itemType fieldNodes info ?ip item errors now st
            = (a, st1)"
          by fastforce
        have ev: "R st st1"
          using "5.IH"(4)[OF Cons refl False np hn] c by simp
        show ?thesis
        proof (cases a)
          case (Inl rawError)
          from stateOrder_handled[OF so ev, where returnType = itemType and errors = errors
              and t = now and f = Value] np c Inl
          show ?thesis by simp
        next
          case (Inr cv)
          show ?thesis
          proof (cases cv)
            case (Value v)
            with np c ev Inr show ?thesis by simp
          next
            case (Promise pr)
            from stateOrder_caught[OF so ev] np c Inr Promise show ?thesis
              by (simp add: Let_def)
          qed
        qed
      qed
      have unfold: "completeListItems ctx itemType fieldNodes info p stream items index
            completedResults errors now st =
          (case ?step of
             (Inl e, st') \<Rightarrow> (Inl e, st')
           | (Inr completedItem, st') \<Rightarrow>
               completeListItems ctx itemType fieldNodes info p stream rest (Suc index)
                 (completedResults @ [completedItem]) errors now st')"
        using Cons False by (subst completeListItems.simps) (simp add: Let_def)
      obtain sx sy where s: "?step = (sx, sy)" by fastforce
      from step s have ev: "R st sy" by simp
      show ?thesis
      proof (cases sx)
        case (Inl e)
        with s ev show ?thesis unfolding unfold by simp
      next
        case (Inr b)
        from ev "5.IH"(5)[OF Cons refl False refl s[symmetric] Inr "5.prems"]
        have "R st (snd (completeListItems ctx itemType fieldNodes info p stream rest (Suc index)
               (completedResults @ [b]) errors now sy))"
          by (rule tr)
        with s Inr show ?thesis unfolding unfold by simp
      qed
    qed
  qed
next
  case (6 ctx p promiseOrData fieldNodes info itemType label now st)
  note rf = stateOrder_refl[OF so] and tr = stateOrder_trans[OF so]
  let ?alloc = "newErrorList st"
  let ?pushed = "pushPayload now Unsettled (snd ?alloc)"
  note ninl = "6.prems"
  then have hn: "inline \<longrightarrow> list_all inlineNode fieldNodes" by simp
  have a: "R st (snd ?alloc)" using so by (rule stateOrder_newErrorList)
  have "R (snd ?alloc) (snd ?pushed)" using so ninl by (rule stateOrder_pushPayload)
  with a have pu: "R st (snd ?pushed)" by (rule tr)
  let ?completed = "case settleRaw now promiseOrData of
               Fulfilled t resolved \<Rightarrow>
                 (let r = completeValue ctx itemType fieldNodes info p resolved (fst ?alloc) t
                            (snd ?pushed)
                  in (settleWith t (fst r), snd r))
             | Rejected t e \<Rightarrow> (Rejected t e, snd ?pushed)
             | Unsettled \<Rightarrow> (Unsettled, snd ?pushed)"
  have co: "R st (snd ?completed)"
  proof (cases "settleRaw now promiseOrData")
    case Unsettled
    with pu show ?thesis by simp
  next
    case (Rejected t e)
    with pu show ?thesis by simp
  next
    case (Fulfilled t resolved)
    from pu "6.IH"[OF refl refl refl Fulfilled hn]
    have "R st (snd (completeValue ctx itemType fieldNodes info p resolved (fst ?alloc) t
             (snd ?pushed)))"
      by (rule tr)
    with Fulfilled show ?thesis by (simp add: Let_def)
  qed
  let ?caught = "catchFieldError fieldNodes (pathToArray p) itemType (fst ?alloc)
                     (fst ?completed) (snd ?completed)"
  have ca: "R st (snd ?caught)" using so co by (rule stateOrder_caught)
  have "R (snd ?caught) (settlePayload (fst ?pushed)
           (patchPayload label (Some p) (fst ?alloc) (fst ?caught) (snd ?caught)) (snd ?caught))"
    using so ninl by (rule stateOrder_settlePayload)
  with ca have "R st (settlePayload (fst ?pushed)
           (patchPayload label (Some p) (fst ?alloc) (fst ?caught) (snd ?caught)) (snd ?caught))"
    by (rule tr)
  then show ?case by (subst addValue.simps) (simp add: Let_def)
next
  case (7 ctx itemType fieldNodes info p iterator errors now st)
  note rf = stateOrder_refl[OF so] and tr = stateOrder_trans[OF so]
  show ?case
  proof (cases "getStreamValues fieldNodes")
    case (Inl e)
    then show ?thesis
      by (subst completeAsyncIteratorValue.simps) (simp add: rf)
  next
    case (Inr stream)
    obtain cr rs st1 where n: "asyncNext ctx itemType fieldNodes info p stream iterator 0 [] False
        None errors now st = (cr, rs, st1)"
      by (metis prod_cases3)
    from "7.prems" Inr have h8: "inline \<longrightarrow> list_all inlineNode fieldNodes \<and> stream = None"
      by (auto dest: inlineNodes_stream)
    have "R st st1"
      using "7.IH"[OF Inr h8] n by simp
    with Inr n show ?thesis
      by (subst completeAsyncIteratorValue.simps) (auto split: option.splits)
  qed
next
  case (8 ctx itemType fieldNodes info p stream iterator index completedResults containsPromise
      resolved errors now st)
  note rf = stateOrder_refl[OF so] and tr = stateOrder_trans[OF so]
  let ?fp = "addPath (Some p) (Index index) None"
  from "8.prems" have hn: "inline \<longrightarrow> list_all inlineNode fieldNodes" by simp
  show ?case
  proof (cases "streamsFrom stream index")
    case True
    with "8.prems" have ninl: "\<not> inline" by (auto simp: streamsFrom_def)
    with "8.IH"(1)[OF True ninl] True show ?thesis by (subst asyncNext.simps) simp
  next
    case False
    show ?thesis
    proof (cases iterator)
      case Nil
      with False show ?thesis by (subst asyncNext.simps) (simp add: Let_def rf)
    next
      case (Cons pl rest)
      show ?thesis
      proof (cases pl)
        case (PReject d rawError)
        with False Cons show ?thesis
          by (subst asyncNext.simps)
             (auto simp: Let_def handleFieldError_def rf stateOrder_pushError[OF so]
                   split: prod.splits sum.splits)
      next
        case (PYield d v)
        obtain a y where c: "completeValue ctx itemType fieldNodes info ?fp v errors (now + d) st
            = (a, y)"
          by fastforce
        have ev: "R st y"
          using "8.IH"(2)[OF False refl Cons PYield hn] c by simp
        show ?thesis
        proof (cases a)
          case (Inr b)
          let ?n = "asyncNext ctx itemType fieldNodes info p stream rest (Suc index)
              (completedResults @ [b]) (containsPromise \<or> isPending b) resolved errors (now + d) y"
          from ev "8.IH"(4)[OF False refl Cons PYield c[symmetric] Inr "8.prems"]
          have "R st (snd (snd ?n))" by (rule tr)
          with False Cons PYield c Inr show ?thesis
            by (subst asyncNext.simps) (simp add: Let_def)
        next
          case (Inl rawError)
          obtain h st2 where h: "handleFieldError
              (locatedError rawError fieldNodes (pathToArray ?fp)) itemType errors (now + d) y = (h, st2)"
            by fastforce
          have "R y st2"
            using stateOrder_handleFieldError[OF so, of y
                "locatedError rawError fieldNodes (pathToArray ?fp)" itemType errors "now + d"] h
            by simp
          with ev have ev2: "R st st2" by (rule tr)
          show ?thesis
          proof (cases h)
            case e: (Inl e)
            with False Cons PYield c Inl h ev2 show ?thesis
              by (subst asyncNext.simps) (simp add: Let_def)
          next
            case b: (Inr b)
            let ?n = "asyncNext ctx itemType fieldNodes info p stream rest (Suc index)
                (completedResults @ [Value CNull]) containsPromise
                (resolveOnce (now + d) (completedResults @ [Value CNull]) containsPromise resolved)
                errors (now + d) st2"
            from ev2 "8.IH"(3)[OF False refl Cons PYield c[symmetric] Inl h[symmetric] b "8.prems"]
            have "R st (snd (snd ?n))" by (rule tr)
            with False Cons PYield c Inl h b show ?thesis
              by (subst asyncNext.simps) (simp add: Let_def)
          qed
        qed
      qed
    qed
  qed
next
  case (9 ctx index iterator fieldNodes info itemType p label now st)
  note rf = stateOrder_refl[OF so] and tr = stateOrder_trans[OF so]
  let ?fp = "addPath p (Index index) None"
  let ?alloc = "newErrorList st"
  let ?pushed = "pushPayload now Unsettled (snd ?alloc)"
  note ninl = "9.prems"
  then have hn: "inline \<longrightarrow> list_all inlineNode fieldNodes" by simp
  have a: "R st (snd ?alloc)" using so by (rule stateOrder_newErrorList)
  have "R (snd ?alloc) (snd ?pushed)" using so ninl by (rule stateOrder_pushPayload)
  with a have pu: "R st (snd ?pushed)" by (rule tr)
  have settle: "R st (settlePayload i pr s)" if "R st s" for i pr s
    using that stateOrder_settlePayload[OF so ninl] by (rule tr)
  show ?case
  proof (cases iterator)
    case Nil
    with settle[OF pu] show ?thesis by (subst addAsyncIteratorValue.simps) (simp add: Let_def)
  next
    case (Cons pl rest)
    show ?thesis
    proof (cases pl)
      case (PReject d rawError)
      have "R st (snd (catchFieldError fieldNodes (pathToArray ?fp) itemType (fst ?alloc)
                    (Rejected (now + d) rawError) (snd ?pushed)))"
        using so pu by (rule stateOrder_caught)
      from settle[OF this] Cons PReject show ?thesis
        by (subst addAsyncIteratorValue.simps) (simp add: Let_def)
    next
      case (PYield d v)
      let ?st1 = "addAsyncIteratorValue ctx (Suc index) rest fieldNodes info itemType p label
          (now + d) (snd ?pushed)"
      from pu "9.IH"(1)[OF refl refl refl refl Cons PYield ninl]
      have e1: "R st ?st1" by (rule tr)
      obtain a y where c: "completeValue ctx itemType fieldNodes info ?fp v (fst ?alloc) (now + d)
          ?st1 = (a, y)"
        by fastforce
      have "R ?st1 y"
        using "9.IH"(2)[OF refl refl refl refl Cons PYield refl hn] c by simp
      with e1 have ey: "R st y" by (rule tr)
      have "R st (snd (catchFieldError fieldNodes (pathToArray ?fp) itemType (fst ?alloc)
                    (Rejected (now + d) rawError) y))" for rawError
        using so ey by (rule stateOrder_caught)
      with Cons PYield c settle[OF ey] settle show ?thesis
        by (subst addAsyncIteratorValue.simps)
           (auto simp: Let_def split: sum.splits promiseOrValue.splits)
    qed
  qed
next
  case (10 ctx returnType resolveType fieldNodes info p result errors now st)
  note rf = stateOrder_refl[OF so] and tr = stateOrder_trans[OF so]
  let ?f = "case resolveType of None \<Rightarrow> (\<lambda>v i. ctxTypeResolver ctx v i returnType) | Some f \<Rightarrow> f"
  show ?case
  proof (cases "?f result info")
    case (Inl e)
    then show ?thesis
      by (subst completeAbstractValue.simps) (simp add: Let_def rf)
  next
    case (Inr runtimeType)
    show ?thesis
    proof (cases "isPromise runtimeType")
      case True
      show ?thesis
      proof (cases "settleRaw now runtimeType")
        case Unsettled
        with Inr True show ?thesis
          by (subst completeAbstractValue.simps) (simp add: Let_def rf)
      next
        case (Rejected t e)
        with Inr True show ?thesis
          by (subst completeAbstractValue.simps) (simp add: Let_def rf)
      next
        case (Fulfilled t resolved)
        show ?thesis
        proof (cases "ensureValidRuntimeType resolved ctx returnType fieldNodes info")
          case e: (Inl e)
          with Fulfilled Inr True show ?thesis
            by (subst completeAbstractValue.simps) (simp add: Let_def rf)
        next
          case v: (Inr objectType)
          have "R st (snd (completeObjectValue ctx objectType fieldNodes info p result errors t st))"
            using "10.IH"(1)[OF refl Inr True Fulfilled v "10.prems"] .
          with Fulfilled Inr True v show ?thesis
            by (subst completeAbstractValue.simps) (simp add: Let_def)
        qed
      qed
    next
      case False
      show ?thesis
      proof (cases "ensureValidRuntimeType runtimeType ctx returnType fieldNodes info")
        case e: (Inl e)
        with Inr False show ?thesis
          by (subst completeAbstractValue.simps) (simp add: Let_def rf)
      next
        case v: (Inr objectType)
        from "10.IH"(2)[OF refl Inr False v "10.prems"] Inr False v
        show ?thesis by (subst completeAbstractValue.simps) (simp add: Let_def)
      qed
    qed
  qed
next
  case (11 ctx returnType fieldNodes info p result errors now st)
  note rf = stateOrder_refl[OF so] and tr = stateOrder_trans[OF so]
  show ?case
  proof (cases "isTypeOf (ctxSchema ctx) returnType")
    case None
    from "11.IH"(1)[OF None "11.prems"] None
    show ?thesis by (subst completeObjectValue.simps) simp
  next
    case (Some f)
    show ?thesis
    proof (cases "f result info")
      case (Inl e)
      with Some show ?thesis by (subst completeObjectValue.simps) (simp add: rf)
    next
      case (Inr b)
      show ?thesis
      proof (cases "isPromise b")
        case True
        show ?thesis
        proof (cases "settleRaw now b")
          case Unsettled
          with Some Inr True show ?thesis
            by (subst completeObjectValue.simps) (simp add: rf)
        next
          case (Rejected t e)
          with Some Inr True show ?thesis
            by (subst completeObjectValue.simps) (simp add: rf)
        next
          case (Fulfilled t resolved)
          show ?thesis
          proof (cases "truthy resolved")
            case False
            with Fulfilled Some Inr True show ?thesis
              by (subst completeObjectValue.simps) (simp add: rf)
          next
            case tr': True
            have "R st (snd (collectAndExecuteSubfields ctx returnType fieldNodes p result errors t st))"
              using "11.IH"(2)[OF Some Inr True Fulfilled _ "11.prems"] tr' by simp
            with Fulfilled Some Inr True tr' show ?thesis
              by (subst completeObjectValue.simps) (simp add: Let_def)
          qed
        qed
      next
        case False
        show ?thesis
        proof (cases "truthy b")
          case True
          from "11.IH"(3)[OF Some Inr False _ "11.prems"] True Some Inr False
          show ?thesis by (subst completeObjectValue.simps) simp
        next
          case nt: False
          with Some Inr False show ?thesis
            by (subst completeObjectValue.simps) (simp add: rf)
        qed
      qed
    qed
  qed
next
  case (12 ctx returnType fieldNodes p result errors now st)
  note rf = stateOrder_refl[OF so] and tr = stateOrder_trans[OF so]
  let ?collected = "collectSubfields (ctxSchema ctx) returnType fieldNodes"
  obtain x y where xy: "executeFields ctx returnType result (Some p) (fst ?collected) errors now []
      st = (x, y)"
    by fastforce
  from "12.prems" have hg: "inline \<longrightarrow> inlineGroup (fst ?collected)"
    and hp: "inline \<longrightarrow> snd ?collected = []"
    by (simp_all add: collectSubfields_inline)
  have ev: "R st y"
    using "12.IH"(1)[OF refl hg] xy by simp
  show ?case
  proof (cases x)
    case (Inl e)
    with xy ev show ?thesis
      by (subst collectAndExecuteSubfields.simps) (simp add: Let_def)
  next
    case (Inr b)
    from ev "12.IH"(2)[OF refl xy[symmetric] Inr hp]
    have "R st (snd (executeSubPatches ctx returnType result p (snd ?collected) now y))"
      by (rule tr)
    with xy Inr show ?thesis
      by (subst collectAndExecuteSubfields.simps)
         (auto simp: Let_def split: prod.splits sum.splits)
  qed
next
  case (13 ctx returnType result p subPatches now st)
  note rf = stateOrder_refl[OF so] and tr = stateOrder_trans[OF so]
  show ?case
  proof (cases subPatches)
    case Nil
    then show ?thesis by (subst executeSubPatches.simps) (simp add: rf)
  next
    case (Cons subPatch rest)
    with "13.prems" have ninl: "\<not> inline" by simp
    then have hg: "inline \<longrightarrow> inlineGroup (snd subPatch)" and hp: "inline \<longrightarrow> rest = []"
      by simp_all
    let ?alloc = "newErrorList st"
    have a: "R st (snd ?alloc)" using so by (rule stateOrder_newErrorList)
    obtain x y where xy: "executeFields ctx returnType result (Some p) (snd subPatch) (fst ?alloc)
        now [] (snd ?alloc) = (x, y)"
      by fastforce
    have "R (snd ?alloc) y"
      using "13.IH"(1)[OF Cons refl refl hg] xy by simp
    with a have ev: "R st y" by (rule tr)
    show ?thesis
    proof (cases x)
      case (Inl e)
      with Cons xy ev show ?thesis
        by (subst executeSubPatches.simps) (simp add: Let_def)
    next
      case (Inr b)
      let ?st2 = "addFields b (fst ?alloc) (fst subPatch) (Some p) now y"
      have "R y ?st2" using so ninl by (rule stateOrder_addFields)
      with ev have "R st ?st2" by (rule tr)
      from this "13.IH"(2)[OF Cons refl refl xy[symmetric] Inr hp]
      have "R st (snd (executeSubPatches ctx returnType result p rest now ?st2))"
        by (rule tr)
      with Cons xy Inr show ?thesis
        by (subst executeSubPatches.simps) (simp add: Let_def)
    qed
  qed
qed

lemma stateOrder_promiseReduce:
  assumes so: "stateOrder inline R"
  shows "(\<And>a v t s. v \<in> set vs \<Longrightarrow> R s (snd (callbackFn a v t s))) \<Longrightarrow>
         R st (snd (promiseReduce callbackFn vs acc now st))"
proof (induction vs arbitrary: acc st)
  case Nil
  show ?case by (simp add: stateOrder_refl[OF so])
next
  case (Cons v vs)
  note tr = stateOrder_trans[OF so]
  have cb: "R s (snd (callbackFn a v t s))" for a t s
    using Cons.prems[of v] by simp
  have ih: "R s (snd (promiseReduce callbackFn vs acc' now s))" for acc' s
    using Cons.IH[of s acc'] Cons.prems by simp
  show ?case
  proof (cases acc)
    case (Value a)
    obtain x y where xy: "callbackFn a v now st = (x, y)" by fastforce
    with cb[of st a now] have f: "R st y" by simp
    show ?thesis
    proof (cases x)
      case (Inl e)
      with Value xy f show ?thesis by simp
    next
      case (Inr nxt)
      from f ih[of y nxt] have "R st (snd (promiseReduce callbackFn vs nxt now y))" by (rule tr)
      with Value xy Inr show ?thesis by simp
    qed
  next
    case (Promise pr)
    show ?thesis
    proof (cases pr)
      case Unsettled
      with Promise ih show ?thesis by simp
    next
      case (Rejected t e)
      with Promise ih show ?thesis by simp
    next
      case (Fulfilled t a)
      from cb[of st a t] ih[of "snd (callbackFn a v t st)"]
      have "R st (snd (promiseReduce callbackFn vs
                   (Promise (settleWith t (fst (callbackFn a v t st)))) now
                   (snd (callbackFn a v t st))))"
        by (rule tr)
      with Promise Fulfilled show ?thesis by (simp add: Let_def)
    qed
  qed
qed

lemma stateOrder_serialCallback:
  assumes so: "stateOrder inline R" and "inline \<longrightarrow> list_all inlineNode (snd entry)"
  shows "R st (snd (serialCallback ctx parentType sourceValue p results entry now st))"
  using executor_state(2)[OF so assms(2), of st ctx parentType sourceValue
      "addPath p (Key (fst entry)) (Some parentType)" 0 now]
  by (auto simp: serialCallback_def Let_def split: prod.splits sum.splits option.splits
      promiseOrValue.splits)

lemma stateOrder_executeFieldsSerially:
  assumes so: "stateOrder inline R" and g: "inline \<longrightarrow> inlineGroup fieldMap"
  shows "R st (snd (executeFieldsSerially ctx parentType sourceValue p fieldMap now st))"
proof -
  have "R st (snd (promiseReduce (serialCallback ctx parentType sourceValue p) fieldMap
                     (Value []) now st))"
  proof (rule stateOrder_promiseReduce[OF so])
    fix a v t s
    assume "v \<in> set fieldMap"
    with g have "inline \<longrightarrow> list_all inlineNode (snd v)"
      by (auto simp: inlineGroup_def list_all_iff)
    with so show "R s (snd (serialCallback ctx parentType sourceValue p a v t s))"
      by (rule stateOrder_serialCallback)
  qed
  then show ?thesis
    by (auto simp: executeFieldsSerially_def split: prod.splits sum.splits)
qed

lemma stateOrder_executeRootPatches:
  assumes so: "stateOrder inline R"
  shows "(inline \<longrightarrow> patches = []) \<Longrightarrow>
         R st (snd (executeRootPatches ctx rootType rootValue patches now st))"
proof (induction patches arbitrary: st)
  case Nil
  show ?case by (simp add: stateOrder_refl[OF so])
next
  case (Cons patch rest)
  note tr = stateOrder_trans[OF so]
  from Cons.prems have ninl: "\<not> inline" by simp
  let ?alloc = "newErrorList st"
  have a: "R st (snd ?alloc)" using so by (rule stateOrder_newErrorList)
  obtain x y where xy: "executeFields ctx rootType rootValue None (snd patch) 0 now []
      (snd ?alloc) = (x, y)"
    by fastforce
  have "R (snd ?alloc) y"
    using executor_state(1)[OF so, of "snd patch" "snd ?alloc" ctx rootType rootValue None 0 now "[]"]
      ninl xy
    by simp
  with a have ev: "R st y" by (rule tr)
  show ?case
  proof (cases x)
    case (Inl e)
    with xy ev show ?thesis by (simp add: Let_def)
  next
    case (Inr b)
    let ?st2 = "addFields b (fst ?alloc) (fst patch) None now y"
    have "R y ?st2" using so ninl by (rule stateOrder_addFields)
    with ev have "R st ?st2" by (rule tr)
    moreover have "R ?st2 (snd (executeRootPatches ctx rootType rootValue rest now ?st2))"
      using Cons.IH[of ?st2] ninl by simp
    ultimately have "R st (snd (executeRootPatches ctx rootType rootValue rest now ?st2))"
      by (rule tr)
    with xy Inr show ?thesis by (simp add: Let_def)
  qed
qed

lemma stateOrder_executeOperation:
  assumes so: "stateOrder inline R"
    and sel: "inline \<longrightarrow> list_all inlineSelection (opSelectionSet op)"
  shows "R st (snd (executeOperation ctx op rootValue now st))"
proof (cases "getRootType (ctxSchema ctx) (operation op)")
  case None
  then show ?thesis by (simp add: executeOperation_def stateOrder_refl[OF so])
next
  case (Some rootType)
  note tr = stateOrder_trans[OF so]
  let ?collected = "collectFields (ctxSchema ctx) rootType (opSelectionSet op)"
  from sel have g: "inline \<longrightarrow> inlineGroup (fst ?collected)"
    and np: "inline \<longrightarrow> snd ?collected = []"
    by (simp_all add: collectFields_inline)
  let ?main = "case operation op of
                 QUERY \<Rightarrow> executeFields ctx rootType rootValue None (fst ?collected) 0 now [] st
               | MUTATION \<Rightarrow>
                   executeFieldsSerially ctx rootType rootValue None (fst ?collected) now st
               | SUBSCRIPTION \<Rightarrow>
                   executeFields ctx rootType rootValue None (fst ?collected) 0 now [] st"
  have m: "R st (snd ?main)"
    using executor_state(1)[OF so g, of st ctx rootType rootValue None 0 now "[]"]
      stateOrder_executeFieldsSerially[OF so g, of st ctx rootType rootValue None now]
    by (cases "operation op") simp_all
  obtain x y where xy: "?main = (x, y)" by fastforce
  with m have ev: "R st y" by simp
  show ?thesis
  proof (cases x)
    case (Inl e)
    with Some xy ev show ?thesis by (simp add: executeOperation_def Let_def)
  next
    case (Inr result)
    from ev stateOrder_executeRootPatches[OF so np, of y ctx rootType rootValue now]
    have "R st (snd (executeRootPatches ctx rootType rootValue (snd ?collected) now y))"
      by (rule tr)
    with Some xy Inr show ?thesis
      by (auto simp: executeOperation_def Let_def split: prod.splits sum.splits)
  qed
qed

lemma stateOrder_execute:
  assumes so: "stateOrder inline R"
    and sel: "\<And>ctx. inline \<Longrightarrow> buildExecutionContext a = Inr ctx \<Longrightarrow>
                list_all inlineSelection (opSelectionSet (ctxOperation ctx))"
  shows "R initialState (snd (execute a))"
proof (cases "assertValidExecutionArguments (argSchema a) (argDocument a) (argVariableValues a)")
  case (Some e)
  then show ?thesis by (simp add: execute_def stateOrder_refl[OF so])
next
  case None
  show ?thesis
  proof (cases "buildExecutionContext a")
    case (Inl errs)
    with None show ?thesis by (simp add: execute_def stateOrder_refl[OF so])
  next
    case (Inr ctx)
    from sel[OF _ Inr] have "inline \<longrightarrow> list_all inlineSelection (opSelectionSet (ctxOperation ctx))"
      by simp
    with so have op: "R initialState
        (snd (executeOperation ctx (ctxOperation ctx) (argRootValue a) 0 initialState))"
      by (rule stateOrder_executeOperation)
    obtain x y where xy: "executeOperation ctx (ctxOperation ctx) (argRootValue a) 0 initialState
        = (x, y)"
      by fastforce
    with op have ev: "R initialState y" by simp
    have pe: "R initialState (pushError 0 t e y)" for t e
      using ev stateOrder_pushError[OF so] by (rule stateOrder_trans[OF so])
    from None Inr xy ev pe show ?thesis
      by (auto simp: execute_def split: sum.splits promiseOrValue.splits promise.splits)
  qed
qed

lemma stateOrder_distinctPayloads:
  "stateOrder False (\<lambda>st st'. distinctPayloads st \<longrightarrow> distinctPayloads st')"
  unfolding stateOrder_def distinctPayloads_def
  by (auto simp: pushError_def newErrorList_def logEvent_def pushPayload_def settlePayload_def
      comp_def distinct_map inj_on_def)

lemma execute_distinctPayloads: "distinct (map pid (subsequentPayloads (snd (execute a))))"
  using stateOrder_execute[OF stateOrder_distinctPayloads, of a]
  by (simp add: distinctPayloads_def initialState_def)

lemma stateOrder_samePayloads:
  "stateOrder True (\<lambda>st st'. subsequentPayloads st' = subsequentPayloads st)"
  unfolding stateOrder_def
  by (auto simp: pushError_def newErrorList_def logEvent_def)

lemma execute_inline:
  assumes "\<And>ctx. buildExecutionContext a = Inr ctx \<Longrightarrow>
             list_all inlineSelection (opSelectionSet (ctxOperation ctx))"
  shows "subsequentPayloads (snd (execute a)) = []"
  using stateOrder_execute[OF stateOrder_samePayloads, of a] assms
  by (simp add: initialState_def)

section \<open>Request errors\<close>

lemma findOperation_unnamed_second:
  "operationDefinitions ds \<noteq> [] \<Longrightarrow>
   findOperation None ds (Some previous) fragments =
     Inl [GraphQLError ''Must provide operation name if query contains multiple operations.'' None]"
  by (induction ds arbitrary: fragments rule: operationDefinitions.induct) auto

lemma findOperation_unnamed_multiple:
  "2 \<le> length (operationDefinitions ds) \<Longrightarrow>
   findOperation None ds None fragments =
     Inl [GraphQLError ''Must provide operation name if query contains multiple operations.'' None]"
proof (induction ds arbitrary: fragments rule: operationDefinitions.induct)
  case 1
  then show ?case by simp
next
  case (2 d ds)
  then have "operationDefinitions ds \<noteq> []" by auto
  then show ?case by (simp add: findOperation_unnamed_second)
next
  case (3 f ds)
  then show ?case by simp
next
  case (4 ds)
  then show ?case by simp
qed

lemma findOperation_no_match:
  "\<forall>d \<in> set (operationDefinitions ds). opName d \<noteq> Some name \<Longrightarrow>
   \<exists>fragments'. findOperation (Some name) ds op fragments = Inr (op, fragments')"
  by (induction ds arbitrary: fragments rule: operationDefinitions.induct) auto

lemma findOperation_no_operation:
  "operationDefinitions ds = [] \<Longrightarrow>
   \<exists>fragments'. findOperation operationName ds None fragments = Inr (None, fragments')"
  by (induction ds arbitrary: fragments rule: operationDefinitions.induct) auto

text \<open>
  C8. For a document that is provided: \<open>buildExecutionContext\<close> returns an error list
  instead of a context when there are several operations and no operation name, when the
  supplied name matches no operation, when there is no operation, and when variable
  coercion fails, in which case at most 50 of the coercion errors are surfaced. Whenever
  it returns an error list and the execution arguments pass the assertions, \<open>execute\<close>
  returns \<open>{errors}\<close> with that list and no data, no resolver has been called and
  nothing has been handed to the dispatcher.
\<close>

theorem buildExecutionContext_request_errors:
  assumes doc: "argDocument a = Some ds"
  shows
    "(argOperationName a = None \<and> 2 \<le> length (operationDefinitions ds) \<longrightarrow>
        buildExecutionContext a =
          Inl [GraphQLError ''Must provide operation name if query contains multiple operations.''
                 None]) \<and>
     (\<forall>name. argOperationName a = Some name \<and>
        (\<forall>d \<in> set (operationDefinitions ds). opName d \<noteq> Some name) \<longrightarrow>
        buildExecutionContext a =
          Inl [GraphQLError (''Unknown operation named \"'' @ name @ ''\".'') None]) \<and>
     (argOperationName a = None \<and> operationDefinitions ds = [] \<longrightarrow>
        buildExecutionContext a = Inl [GraphQLError ''Must provide an operation.'' None]) \<and>
     (\<forall>op fragments allErrors coerced.
        findOperation (argOperationName a) ds None (\<lambda>_. None) = Inr (Some op, fragments) \<and>
        coerceVariableValues a (argSchema a)
          (case variableDefinitions op of None \<Rightarrow> [] | Some vs \<Rightarrow> vs)
          (if isNullish (argVariableValues a) then RObject [] else argVariableValues a)
          = (allErrors, coerced) \<and> allErrors \<noteq> [] \<longrightarrow>
        buildExecutionContext a = Inl (take 50 allErrors) \<and> length (take 50 allErrors) \<le> 50) \<and>
     (\<forall>errs. buildExecutionContext a = Inl errs \<and>
        assertValidExecutionArguments (argSchema a) (argDocument a) (argVariableValues a) = None \<longrightarrow>
        execute a =
          (Inr (Value (ExecutionResult \<lparr>resultErrors = Some errs, resultData = None\<rparr>)),
           initialState) \<and>
        events (snd (execute a)) = [] \<and> subsequentPayloads (snd (execute a)) = [])"
proof (intro conjI allI impI)
  assume "argOperationName a = None \<and> 2 \<le> length (operationDefinitions ds)"
  then show "buildExecutionContext a =
      Inl [GraphQLError ''Must provide operation name if query contains multiple operations.'' None]"
    using doc by (simp add: buildExecutionContext_def findOperation_unnamed_multiple)
next
  fix name
  assume h: "argOperationName a = Some name \<and>
        (\<forall>d \<in> set (operationDefinitions ds). opName d \<noteq> Some name)"
  then obtain fragments' where
    "findOperation (Some name) ds None (\<lambda>_. None) = Inr (None, fragments')"
    using findOperation_no_match by blast
  with h show "buildExecutionContext a =
      Inl [GraphQLError (''Unknown operation named \"'' @ name @ ''\".'') None]"
    using doc by (simp add: buildExecutionContext_def)
next
  assume h: "argOperationName a = None \<and> operationDefinitions ds = []"
  then obtain fragments' where
    "findOperation None ds None (\<lambda>_. None) = Inr (None, fragments')"
    using findOperation_no_operation by blast
  with h show "buildExecutionContext a = Inl [GraphQLError ''Must provide an operation.'' None]"
    using doc by (simp add: buildExecutionContext_def)
next
  fix op fragments allErrors coerced
  assume h: "findOperation (argOperationName a) ds None (\<lambda>_. None) = Inr (Some op, fragments) \<and>
        coerceVariableValues a (argSchema a)
          (case variableDefinitions op of None \<Rightarrow> [] | Some vs \<Rightarrow> vs)
          (if isNullish (argVariableValues a) then RObject [] else argVariableValues a)
          = (allErrors, coerced) \<and> allErrors \<noteq> []"
  then show "buildExecutionContext a = Inl (take 50 allErrors)"
    using doc by (simp add: buildExecutionContext_def getVariableValues_def Let_def)
next
  fix op fragments allErrors coerced
  show "length (take 50 allErrors) \<le> 50" by simp
next
  fix errs
  assume h: "buildExecutionContext a = Inl errs \<and>
        assertValidExecutionArguments (argSchema a) (argDocument a) (argVariableValues a) = None"
  then show e: "execute a =
          (Inr (Value (ExecutionResult \<lparr>resultErrors = Some errs, resultData = None\<rparr>)),
           initialState)"
    by (simp add: execute_def)
  show "events (snd (execute a)) = []" by (simp add: e initialState_def)
  show "subsequentPayloads (snd (execute a)) = []" by (simp add: e initialState_def)
qed

theorem buildExecutionContext_request_errors_witness:
  "buildExecutionContext
     (request syncTestSchema
        [exampleOperation QUERY [plainField ''syncField''],
         exampleOperation QUERY [plainField ''asyncField'']] (RPrim (JStr ''rootValue'')) None [])
     = Inl [GraphQLError ''Must provide operation name if query contains multiple operations.'' None]
   \<and> buildExecutionContext
     (request syncTestSchema [exampleOperation QUERY [plainField ''syncField'']]
        (RPrim (JStr ''rootValue'')) (Some ''Other'') [])
     = Inl [GraphQLError ''Unknown operation named \"Other\".'' None]
   \<and> buildExecutionContext
     (request syncTestSchema [exampleOperation QUERY [plainField ''syncField'']]
        (RPrim (JStr ''rootValue'')) None (replicate 60 (Error ''bad variable'')))
     = Inl (replicate 50 (Error ''bad variable''))
   \<and> execute (request syncTestSchema [exampleFragment] (RPrim (JStr ''rootValue'')) None [])
     = (Inr (Value (ExecutionResult
          \<lparr>resultErrors = Some [GraphQLError ''Must provide an operation.'' None],
           resultData = None\<rparr>)), initialState)"
proof -
  let ?ops2 = "[exampleOperation QUERY [plainField ''syncField''],
         exampleOperation QUERY [plainField ''asyncField'']]"
  let ?ops1 = "[exampleOperation QUERY [plainField ''syncField'']]"
  let ?root = "RPrim (JStr ''rootValue'')"
  have a: "buildExecutionContext (request syncTestSchema ?ops2 ?root None [])
     = Inl [GraphQLError ''Must provide operation name if query contains multiple operations.'' None]"
    using buildExecutionContext_request_errors
            [of "request syncTestSchema ?ops2 ?root None []" ?ops2]
    by (simp add: request_def exampleOperation_def)
  have b: "buildExecutionContext (request syncTestSchema ?ops1 ?root (Some ''Other'') [])
     = Inl [GraphQLError ''Unknown operation named \"Other\".'' None]"
    using buildExecutionContext_request_errors
            [of "request syncTestSchema ?ops1 ?root (Some ''Other'') []" ?ops1]
    by (simp add: request_def exampleOperation_def)
  have c: "buildExecutionContext
     (request syncTestSchema ?ops1 ?root None (replicate 60 (Error ''bad variable'')))
     = Inl (replicate 50 (Error ''bad variable''))"
    using buildExecutionContext_request_errors
            [of "request syncTestSchema ?ops1 ?root None (replicate 60 (Error ''bad variable''))" ?ops1]
    by (simp add: request_def exampleOperation_def)
  have d0: "buildExecutionContext (request syncTestSchema [exampleFragment] ?root None [])
     = Inl [GraphQLError ''Must provide an operation.'' None]"
    using buildExecutionContext_request_errors
            [of "request syncTestSchema [exampleFragment] ?root None []" "[exampleFragment]"]
    by (simp add: request_def exampleFragment_def)
  have d: "execute (request syncTestSchema [exampleFragment] ?root None [])
     = (Inr (Value (ExecutionResult
          \<lparr>resultErrors = Some [GraphQLError ''Must provide an operation.'' None],
           resultData = None\<rparr>)), initialState)"
    using buildExecutionContext_request_errors
            [of "request syncTestSchema [exampleFragment] ?root None []" "[exampleFragment]"] d0
    by (simp add: request_def assertValidExecutionArguments_def syncTestSchema_def)
  from a b c d show ?thesis by blast
qed
section \<open>Fields without a definition\<close>

lemma executeFields_Cons:
  "executeFields ctx parentType sourceValue p (entry # rest) errors now results st =
     (case executeField ctx parentType sourceValue (snd entry)
             (addPath p (Key (fst entry)) (Some parentType)) errors now st of
        (Inl e, st1) \<Rightarrow> (Inl e, st1)
      | (Inr None, st1) \<Rightarrow>
          executeFields ctx parentType sourceValue p rest errors now results st1
      | (Inr (Some result), st1) \<Rightarrow>
          executeFields ctx parentType sourceValue p rest errors now
            (objSet (fst entry) result results) st1)"
  by (subst executeFields.simps) simp

lemma executeFields_Nil:
  "executeFields ctx parentType sourceValue p [] errors now results st =
     (if list_ex isPending (map snd results)
      then (Inr (Promise (promiseForObject now results)), st)
      else (Inr (Value (CObject (zip (map fst results) (readyValues (map snd results))))), st))"
  by (subst executeFields.simps) simp

lemma executeField_undefined:
  assumes "getFieldDef (ctxSchema ctx) parentType node = None"
  shows "executeField ctx parentType source (node # others) p errors now st = (Inr None, st)"
  using assms by (simp add: executeField.simps)

lemma executeFields_omits:
  assumes "\<And>st. executeField ctx parentType sourceValue (snd entry)
             (addPath p (Key (fst entry)) (Some parentType)) errors now st = (Inr None, st)"
  shows "executeFields ctx parentType sourceValue p (earlier @ entry # later) errors now results st =
         executeFields ctx parentType sourceValue p (earlier @ later) errors now results st"
proof (induction earlier arbitrary: results st)
  case Nil
  show ?case by (simp add: executeFields_Cons assms)
next
  case (Cons b earlier)
  show ?case
    by (simp add: executeFields_Cons Cons split: prod.splits sum.splits option.splits)
qed

text \<open>
  C10. A selected field whose name has no definition on the parent object type and is not
  an introspection meta-field (\<open>__typename\<close> anywhere, \<open>__schema\<close> or \<open>__type\<close> on the
  query root): \<open>executeField\<close> returns undefined and leaves the state, and with it every
  error list, as it was; \<open>executeFields\<close> runs as if the entry were not in the field map,
  so the response key is absent from the result object.
\<close>

theorem executeField_unknown_field_omitted:
  assumes nodef: "getFields (ctxSchema ctx) parentType (nodeName node) = None"
    and typename: "nodeName node \<noteq> fdName (TypeNameMetaFieldDef (ctxSchema ctx))"
    and root: "getQueryType (ctxSchema ctx) = Some parentType \<longrightarrow>
                 nodeName node \<noteq> fdName (SchemaMetaFieldDef (ctxSchema ctx)) \<and>
                 nodeName node \<noteq> fdName (TypeMetaFieldDef (ctxSchema ctx))"
  shows "executeField ctx parentType source (node # others) p errors now st = (Inr None, st) \<and>
         executeFields ctx parentType source q (earlier @ (responseKey, node # others) # later)
           errors now results st =
         executeFields ctx parentType source q (earlier @ later) errors now results st"
proof -
  have g: "getFieldDef (ctxSchema ctx) parentType node = None"
    using assms by (auto simp: getFieldDef_def Let_def)
  have a: "executeField ctx parentType source (node # others) p errors now st = (Inr None, st)"
    by (rule executeField_undefined[OF g])
  have b: "executeFields ctx parentType source q (earlier @ (responseKey, node # others) # later)
           errors now results st =
         executeFields ctx parentType source q (earlier @ later) errors now results st"
    by (rule executeFields_omits) (simp add: executeField_undefined[OF g])
  from a b show ?thesis by simp
qed

theorem executeField_unknown_field_omitted_witness:
  "executeField (exampleContext exampleSchema) ''Query'' exampleRoot [fieldWith ''unknown'' []]
     (addPath None (Key ''unknown'') (Some ''Query'')) 0 0 initialState = (Inr None, initialState) \<and>
   executeFields (exampleContext exampleSchema) ''Query'' exampleRoot None
     [(''title'', [fieldWith ''title'' []]), (''unknown'', [fieldWith ''unknown'' []])]
     0 0 [] initialState =
   executeFields (exampleContext exampleSchema) ''Query'' exampleRoot None
     [(''title'', [fieldWith ''title'' []])] 0 0 [] initialState \<and>
   fst (execute (request exampleSchema
          [exampleOperation QUERY [plainField ''title'', plainField ''unknown'']]
          exampleRoot None [])) =
     Inr (Value (ExecutionResult
       \<lparr>resultErrors = None,
        resultData = Some (CObject [(''title'', CLeaf (RPrim (JStr ''t'')))])\<rparr>))"
proof -
  have a: "executeField (exampleContext exampleSchema) ''Query'' exampleRoot [fieldWith ''unknown'' []]
     (addPath None (Key ''unknown'') (Some ''Query'')) 0 0 initialState = (Inr None, initialState) \<and>
   executeFields (exampleContext exampleSchema) ''Query'' exampleRoot None
     ([(''title'', [fieldWith ''title'' []])] @ (''unknown'', [fieldWith ''unknown'' []]) # [])
     0 0 [] initialState =
   executeFields (exampleContext exampleSchema) ''Query'' exampleRoot None
     ([(''title'', [fieldWith ''title'' []])] @ []) 0 0 [] initialState"
    by (rule executeField_unknown_field_omitted) (simp_all add: example_defs getQueryType_def)
  have b: "fst (execute (request exampleSchema
          [exampleOperation QUERY [plainField ''title'', plainField ''unknown'']]
          exampleRoot None [])) =
     Inr (Value (ExecutionResult
       \<lparr>resultErrors = None,
        resultData = Some (CObject [(''title'', CLeaf (RPrim (JStr ''t'')))])\<rparr>))"
    by (simp add: executor_defs example_defs executor_simps exampleRoot_def)
  from a b show ?thesis by simp
qed

section \<open>Abstract types\<close>






section \<open>The async sequence of the dispatcher\<close>

lemma indexOf_mem: "q \<in> set qs \<Longrightarrow> \<exists>k. indexOf qs (pid q) = Some k"
  by (induction qs) auto

lemma spliceOut_identity:
  "distinct (map pid qs) \<Longrightarrow> q \<in> set qs \<Longrightarrow> spliceOut qs (pid q) = remove1 q qs"
proof (induction qs)
  case Nil
  then show ?case by simp
next
  case (Cons x xs)
  show ?case
  proof (cases "pid x = pid q")
    case True
    with Cons.prems have "x = q" by (auto simp: image_iff)
    with True show ?thesis by (simp add: spliceOut_def)
  next
    case False
    with Cons.prems have mem: "q \<in> set xs" and d: "distinct (map pid xs)" and ne: "x \<noteq> q"
      by auto
    from indexOf_mem[OF mem] obtain k where k: "indexOf xs (pid q) = Some k" by blast
    with Cons.IH[OF d mem] have "take k xs @ drop (Suc k) xs = remove1 q xs"
      by (simp add: spliceOut_def)
    with False k ne show ?thesis by (simp add: spliceOut_def)
  qed
qed

lemma distinct_pid_remove1: "distinct (map pid qs) \<Longrightarrow> distinct (map pid (remove1 q qs))"
  by (induction qs) (auto simp: image_iff dest: notin_set_remove1)

lemma winsAt_Fulfilled: "winsAt now q = Some u \<longleftrightarrow> (\<exists>t r. settlement q = Fulfilled t r \<and> u = max now t)"
  by (auto simp: winsAt_def split: promise.splits)

lemma firstToSettle_first:
  assumes "firstToSettle tie now qs = Some q"
  shows "q \<in> set (queueAt now qs) \<and>
         (\<exists>t r. settlement q = Fulfilled t r \<and>
            (\<forall>q'\<in>set (queueAt now qs). \<forall>t' r'.
               settlement q' = Fulfilled t' r' \<longrightarrow> max now t \<le> max now t'))"
proof -
  from firstToSettle_contender[OF assms]
  have c: "q \<in> set (contenders now (queueAt now qs))" .
  obtain tm where tm: "raceTime now (queueAt now qs) = Some tm"
    and w: "winsAt now q = Some tm" and mem: "q \<in> set (queueAt now qs)"
  proof (cases "raceTime now (queueAt now qs)")
    case None
    with c show ?thesis by (simp add: contenders_def)
  next
    case (Some tm)
    with c that show ?thesis by (simp add: contenders_def)
  qed
  from w obtain t r where s: "settlement q = Fulfilled t r" and tmv: "tm = max now t"
    by (auto simp: winsAt_Fulfilled)
  have "max now t \<le> max now t'" if "q' \<in> set (queueAt now qs)" and "settlement q' = Fulfilled t' r'"
    for q' t' r'
  proof -
    from that(2) have "winsAt now q' = Some (max now t')" by (simp add: winsAt_def)
    from raceTime_least[OF tm that(1) this] tmv show ?thesis by simp
  qed
  with mem s show ?thesis by blast
qed

lemma firstToSettle_live:
  assumes "q \<in> set (queueAt now qs)" and "settlement q = Fulfilled t r"
  shows "\<exists>promise. firstToSettle tie now qs = Some promise"
proof -
  from assms(2) have "winsAt now q = Some (max now t)" by (simp add: winsAt_def)
  with assms(1) have "contenders now (queueAt now qs) \<noteq> []"
    by (auto simp: contenders_Nil)
  then show ?thesis by (cases "contenders now (queueAt now qs)") (simp_all add: firstToSettle_def)
qed

lemma dispatcher_race_step:
  assumes "firstToSettle tie now (payloads d) = Some promise"
    and "settlement promise = Fulfilled t r"
  shows "dispatcher_race tie d now =
     (let d' = d\<lparr>payloads := spliceOut (payloads d) (pid promise)\<rparr>;
          pending = queueAt (max now t) (payloads d')
      in case r of
           IterValue v \<Rightarrow> Some (IterValue (PatchPayload v (pending \<noteq> [])), d', max now t)
         | IterDone \<Rightarrow>
             if pending = [] then Some (IterValue (HasNextOnly False), d', max now t)
             else dispatcher_race tie d' (max now t))"
  using assms by (subst dispatcher_race.simps) (simp add: Let_def split: iteratorResult.splits)

lemma queueAt_mono: "now \<le> now' \<Longrightarrow> set (queueAt now qs) \<subseteq> set (queueAt now' qs)"
  by (auto simp: queueAt_def)

lemma dispatcher_race_live:
  "(\<forall>q\<in>set (payloads d). \<exists>t r. settlement q = Fulfilled t r) \<Longrightarrow>
   queueAt now (payloads d) \<noteq> [] \<Longrightarrow> \<exists>result. dispatcher_race tie d now = Some result"
proof (induction tie d now rule: dispatcher_race.induct)
  case (1 tie d now)
  from "1.prems"(2) obtain q where q: "q \<in> set (queueAt now (payloads d))"
    by (cases "queueAt now (payloads d)") auto
  then have "q \<in> set (payloads d)" by (simp add: queueAt_def)
  with "1.prems"(1) obtain t r where "settlement q = Fulfilled t r" by blast
  from firstToSettle_live[OF q this] obtain promise
    where w: "firstToSettle tie now (payloads d) = Some promise" by blast
  from firstToSettle_mem[OF w] "1.prems"(1) obtain t r
    where s: "settlement promise = Fulfilled t r" by blast
  let ?d' = "d\<lparr>payloads := spliceOut (payloads d) (pid promise)\<rparr>"
  show ?case
  proof (cases r)
    case (IterValue v)
    with dispatcher_race_step[OF w s] show ?thesis by (simp add: Let_def)
  next
    case IterDone
    show ?thesis
    proof (cases "queueAt (max now t) (payloads ?d') = []")
      case True
      with dispatcher_race_step[OF w s] IterDone show ?thesis by (simp add: Let_def)
    next
      case False
      have sub: "set (payloads ?d') \<subseteq> set (payloads d)"
        by (auto simp: spliceOut_def split: option.splits dest: in_set_takeD in_set_dropD
            in_set_butlastD)
      with "1.prems"(1) have all: "\<forall>q\<in>set (payloads ?d'). \<exists>t r. settlement q = Fulfilled t r"
        by blast
      from False have ne: "length (queueAt (max now t) (payloads ?d')) \<noteq> 0" by simp
      from "1.IH"[OF w refl s IterDone ne all False]
      obtain result where res: "dispatcher_race tie ?d' (max now t) = Some result" by blast
      from dispatcher_race_step[OF w s] IterDone False
      have "dispatcher_race tie d now = dispatcher_race tie ?d' (max now t)"
        by (simp add: Let_def)
      with res have "dispatcher_race tie d now = Some result" by simp
      then show ?thesis by (rule exI)
    qed
  qed
qed

lemma returnedSequence_respond:
  "returnedSequence (Inr (Value (respond data 0 st))) = Some (t0, d0) \<Longrightarrow>
   t0 = 0 \<and> d0 = dispatcher_get (buildResponse data (errorsAt 0 st 0)) st \<and>
   queueAt 0 (subsequentPayloads st) \<noteq> []"
  by (auto simp: respond_def Let_def hasSubsequentPayloads_def split: if_splits)

lemma returnedSequence_respond_later:
  "returnedSequence (Inr (Promise (Fulfilled t (respond data t st)))) = Some (t0, d0) \<Longrightarrow>
   t0 = t \<and> d0 = dispatcher_get (buildResponse data (errorsAt t st 0)) st \<and>
   queueAt t (subsequentPayloads st) \<noteq> []"
  by (auto simp: respond_def Let_def hasSubsequentPayloads_def split: if_splits)

lemma execute_sequence:
  assumes "returnedSequence (fst (execute a)) = Some (t0, d0)"
  shows "\<exists>data. d0 = dispatcher_get (buildResponse data (errorsAt t0 (snd (execute a)) 0))
                       (snd (execute a)) \<and>
                queueAt t0 (subsequentPayloads (snd (execute a))) \<noteq> []"
proof (cases "assertValidExecutionArguments (argSchema a) (argDocument a) (argVariableValues a)")
  case (Some e)
  with assms show ?thesis by (simp add: execute_def)
next
  case None
  show ?thesis
  proof (cases "buildExecutionContext a")
    case (Inl errs)
    with None assms show ?thesis by (simp add: execute_def)
  next
    case (Inr ctx)
    obtain x y where xy: "executeOperation ctx (ctxOperation ctx) (argRootValue a) 0 initialState
        = (x, y)"
      by fastforce
    show ?thesis
    proof (cases x)
      case (Inl e)
      with None Inr xy assms show ?thesis by (simp add: execute_def respondError_def)
    next
      case r: (Inr r)
      show ?thesis
      proof (cases r)
        case (Value data)
        with None Inr xy r have e: "execute a = (Inr (Value (respond data 0 y)), y)"
          by (simp add: execute_def)
        with assms returnedSequence_respond[of data y t0 d0] show ?thesis by auto
      next
        case (Promise pr)
        show ?thesis
        proof (cases pr)
          case Unsettled
          with None Inr xy r Promise assms show ?thesis by (simp add: execute_def)
        next
          case (Rejected t e)
          with None Inr xy r Promise assms show ?thesis
            by (simp add: execute_def respondError_def)
        next
          case (Fulfilled t data)
          with None Inr xy r Promise
          have e: "execute a = (Inr (Promise (Fulfilled t (respond data t y))), y)"
            by (simp add: execute_def)
          with assms returnedSequence_respond_later[of t data y t0 d0] show ?thesis by auto
        qed
      qed
    qed
  qed
qed

text \<open>
  C5. The async sequence that \<open>execute\<close> returns is the dispatcher that \<open>get\<close> set up:
  its queue is the queue the execution pushed to, it is not empty at that time, its promises
  are distinct objects, and the initial result is the response built from the errors
  recorded by then. The first \<open>next()\<close> yields the initial result with \<open>hasNext\<close> true.
  Every later \<open>next()\<close> reports the end when the queue is empty and otherwise races the
  promises that are in the queue at that moment. When one of them fulfils, the race has a
  winner: a promise of that queue that fulfils and that none of them precedes. It is
  removed from the queue, it alone and every other promise staying in place, before its
  value is read. A payload is emitted with \<open>hasNext\<close> true exactly when the queue, as it
  stands then, still holds a promise; a done signal emits the one payload
  \<open>{hasNext: false}\<close> when the queue is empty (the next call then reports the end), and
  leads to another race otherwise. When every promise of the queue fulfils, the race settles.
  All of this holds however the host orders promises that settle at the same time (\<open>tie\<close>).
\<close>

theorem dispatcher_sequence:
  "(returnedSequence (fst (execute a)) = Some (t0, d0) \<longrightarrow>
      payloads d0 = subsequentPayloads (snd (execute a)) \<and>
      distinct (map pid (payloads d0)) \<and> queueAt t0 (payloads d0) \<noteq> [] \<and>
      \<not> hasReturnedInitialResult d0 \<and>
      (\<exists>data. initialResult d0 = Some (buildResponse data (errorsAt t0 (snd (execute a)) 0)))) \<and>
   (\<not> hasReturnedInitialResult d \<longrightarrow>
      dispatcher_next tie d now =
        Some (IterValue (InitialPayload (initialResult d) True),
              d\<lparr>hasReturnedInitialResult := True\<rparr>, now)) \<and>
   (hasReturnedInitialResult d \<and> queueAt now (payloads d) = [] \<longrightarrow>
      dispatcher_next tie d now = Some (IterDone, d, now)) \<and>
   (hasReturnedInitialResult d \<and> queueAt now (payloads d) \<noteq> [] \<longrightarrow>
      dispatcher_next tie d now = dispatcher_race tie d now) \<and>
   (distinct (map pid (payloads d)) \<and>
    (\<exists>q\<in>set (queueAt now (payloads d)). \<exists>t r. settlement q = Fulfilled t r) \<longrightarrow>
      (\<exists>promise t r.
         firstToSettle tie now (payloads d) = Some promise \<and>
         promise \<in> set (queueAt now (payloads d)) \<and> settlement promise = Fulfilled t r \<and>
         (\<forall>q\<in>set (queueAt now (payloads d)). \<forall>t' r'.
            settlement q = Fulfilled t' r' \<longrightarrow> max now t \<le> max now t') \<and>
         distinct (map pid (remove1 promise (payloads d))) \<and>
         dispatcher_race tie d now =
           (let d' = d\<lparr>payloads := remove1 promise (payloads d)\<rparr>;
                pending = queueAt (max now t) (payloads d')
            in case r of
                 IterValue v \<Rightarrow> Some (IterValue (PatchPayload v (pending \<noteq> [])), d', max now t)
               | IterDone \<Rightarrow>
                   if pending = [] then Some (IterValue (HasNextOnly False), d', max now t)
                   else dispatcher_race tie d' (max now t)))) \<and>
   ((\<forall>q\<in>set (payloads d). \<exists>t r. settlement q = Fulfilled t r) \<and>
    queueAt now (payloads d) \<noteq> [] \<longrightarrow>
      (\<exists>result. dispatcher_race tie d now = Some result))"
proof (intro conjI impI)
  assume r: "returnedSequence (fst (execute a)) = Some (t0, d0)"
  from execute_sequence[OF r] obtain data
    where d0: "d0 = dispatcher_get (buildResponse data (errorsAt t0 (snd (execute a)) 0))
                      (snd (execute a))"
      and ne: "queueAt t0 (subsequentPayloads (snd (execute a))) \<noteq> []"
    by blast
  from d0 show "payloads d0 = subsequentPayloads (snd (execute a))"
    by (simp add: dispatcher_get_def)
  from d0 execute_distinctPayloads[of a] show "distinct (map pid (payloads d0))"
    by (simp add: dispatcher_get_def)
  from d0 ne show "queueAt t0 (payloads d0) \<noteq> []" by (simp add: dispatcher_get_def)
  from d0 show "\<not> hasReturnedInitialResult d0" by (simp add: dispatcher_get_def)
  from d0 show "\<exists>data. initialResult d0 =
      Some (buildResponse data (errorsAt t0 (snd (execute a)) 0))"
    by (auto simp: dispatcher_get_def)
next
  assume "\<not> hasReturnedInitialResult d"
  then show "dispatcher_next tie d now =
        Some (IterValue (InitialPayload (initialResult d) True),
              d\<lparr>hasReturnedInitialResult := True\<rparr>, now)"
    by (simp add: dispatcher_next_def)
next
  assume "hasReturnedInitialResult d \<and> queueAt now (payloads d) = []"
  then show "dispatcher_next tie d now = Some (IterDone, d, now)"
    by (simp add: dispatcher_next_def)
next
  assume "hasReturnedInitialResult d \<and> queueAt now (payloads d) \<noteq> []"
  then show "dispatcher_next tie d now = dispatcher_race tie d now"
    by (simp add: dispatcher_next_def)
next
  assume h: "distinct (map pid (payloads d)) \<and>
    (\<exists>q\<in>set (queueAt now (payloads d)). \<exists>t r. settlement q = Fulfilled t r)"
  then obtain q t' r' where q: "q \<in> set (queueAt now (payloads d))"
    and s': "settlement q = Fulfilled t' r'"
    by blast
  from firstToSettle_live[OF q s'] obtain promise
    where w: "firstToSettle tie now (payloads d) = Some promise" by blast
  from firstToSettle_first[OF w] obtain t r
    where mem: "promise \<in> set (queueAt now (payloads d))"
      and s: "settlement promise = Fulfilled t r"
      and first: "\<forall>q\<in>set (queueAt now (payloads d)). \<forall>t' r'.
            settlement q = Fulfilled t' r' \<longrightarrow> max now t \<le> max now t'"
    by blast
  from firstToSettle_mem[OF w] h
  have sp: "spliceOut (payloads d) (pid promise) = remove1 promise (payloads d)"
    by (simp add: spliceOut_identity)
  from h have dr: "distinct (map pid (remove1 promise (payloads d)))"
    by (simp add: distinct_pid_remove1)
  have "dispatcher_race tie d now =
           (let d' = d\<lparr>payloads := remove1 promise (payloads d)\<rparr>;
                pending = queueAt (max now t) (payloads d')
            in case r of
                 IterValue v \<Rightarrow> Some (IterValue (PatchPayload v (pending \<noteq> [])), d', max now t)
               | IterDone \<Rightarrow>
                   if pending = [] then Some (IterValue (HasNextOnly False), d', max now t)
                   else dispatcher_race tie d' (max now t))"
    using dispatcher_race_step[OF w s] sp by simp
  with w mem s first dr
  show "\<exists>promise t r.
         firstToSettle tie now (payloads d) = Some promise \<and>
         promise \<in> set (queueAt now (payloads d)) \<and> settlement promise = Fulfilled t r \<and>
         (\<forall>q\<in>set (queueAt now (payloads d)). \<forall>t' r'.
            settlement q = Fulfilled t' r' \<longrightarrow> max now t \<le> max now t') \<and>
         distinct (map pid (remove1 promise (payloads d))) \<and>
         dispatcher_race tie d now =
           (let d' = d\<lparr>payloads := remove1 promise (payloads d)\<rparr>;
                pending = queueAt (max now t) (payloads d')
            in case r of
                 IterValue v \<Rightarrow> Some (IterValue (PatchPayload v (pending \<noteq> [])), d', max now t)
               | IterDone \<Rightarrow>
                   if pending = [] then Some (IterValue (HasNextOnly False), d', max now t)
                   else dispatcher_race tie d' (max now t))"
    by blast
next
  assume "(\<forall>q\<in>set (payloads d). \<exists>t r. settlement q = Fulfilled t r) \<and>
    queueAt now (payloads d) \<noteq> []"
  then show "\<exists>result. dispatcher_race tie d now = Some result"
    using dispatcher_race_live[of d now tie] by blast
qed

lemmas race_defs =
  firstToSettle_def contenders_def queueAt_def winsAt_def Let_def numeral_2_eq_2

theorem dispatcher_sequence_witness:
  "map pid (subsequentPayloads (snd (execute (request exampleSchema
        [exampleOperation QUERY
           [FieldSelection (streamed ''tags'' 1), deferred [plainField ''title'']]]
        exampleRoot None [])))) = [0, 1, 2] \<and>
   map_option (\<lambda>s. nextResults (\<lambda>cs. 2) 5 (snd s) (fst s))
     (returnedSequence (fst (execute (request exampleSchema
        [exampleOperation QUERY
           [FieldSelection (streamed ''tags'' 1), deferred [plainField ''title'']]]
        exampleRoot None [])))) =
     Some [IterValue (InitialPayload
             (Some \<lparr>resultErrors = None,
                    resultData = Some (CObject [(''tags'', CList [CLeaf (RPrim (JStr ''a''))])])\<rparr>)
             True),
           IterValue (PatchPayload titlePatch True),
           IterValue (PatchPayload (examplePatch 1 ''b'') True),
           IterValue (PatchPayload (examplePatch 2 ''c'') False),
           IterDone] \<and>
   map_option (\<lambda>s. nextResults (\<lambda>cs. 0) 4 (snd s) (fst s))
     (returnedSequence (fst (execute (request exampleSchema
        [exampleOperation QUERY [FieldSelection (streamed ''feed'' 1)]] tagsRoot None [])))) =
     Some [IterValue (InitialPayload
             (Some \<lparr>resultErrors = None,
                    resultData = Some (CObject [(''feed'', CList [CLeaf (RPrim (JStr ''a''))])])\<rparr>)
             True),
           IterValue (PatchPayload
             \<lparr>drData = CLeaf (RPrim (JStr ''b'')), drPath = [Key ''feed'', Index 1],
              drLabel = None, drErrors = None\<rparr> True),
           IterValue (HasNextOnly False),
           IterDone] \<and>
   (\<exists>result.
      dispatcher_race (\<lambda>cs. 2)
        (exampleDispatcher
           [\<lparr>pid = 0, pushedAt = 0, settlement = Fulfilled 3 IterDone\<rparr>,
            \<lparr>pid = 1, pushedAt = 0,
             settlement = Fulfilled 1 (IterValue (examplePatch 3 ''d''))\<rparr>]) 0 = Some result)"
proof -
  let ?tie = "\<lambda>cs :: payloadPromise list. 2 :: nat"
  let ?b = "\<lparr>pid = 0, pushedAt = 0, settlement = Fulfilled 0 (IterValue (examplePatch 1 ''b''))\<rparr>"
  let ?c = "\<lparr>pid = 1, pushedAt = 0, settlement = Fulfilled 0 (IterValue (examplePatch 2 ''c''))\<rparr>"
  let ?t = "\<lparr>pid = 2, pushedAt = 0, settlement = Fulfilled 0 (IterValue titlePatch)\<rparr>"
  let ?initial = "\<lparr>resultErrors = None,
                   resultData = Some (CObject [(''tags'', CList [CLeaf (RPrim (JStr ''a''))])])\<rparr>"
  let ?store = "(\<lambda>_. [])(Suc 0 := [], Suc (Suc 0) := [], Suc (Suc (Suc 0)) := []) :: nat \<Rightarrow> gerror list"
  let ?d = "\<lambda>qs flag. \<lparr>payloads = qs, initialResult = Some ?initial,
                        hasReturnedInitialResult = flag, payloadErrors = ?store\<rparr>"
  note seq = dispatcher_sequence[where a = "request exampleSchema
        [exampleOperation QUERY
           [FieldSelection (streamed ''tags'' 1), deferred [plainField ''title'']]]
        exampleRoot None []" and ?t0.0 = 0 and ?d0.0 = "?d [?b, ?c, ?t] False" and tie = ?tie]
  have e: "fst (execute (request exampleSchema
        [exampleOperation QUERY
           [FieldSelection (streamed ''tags'' 1), deferred [plainField ''title'']]]
        exampleRoot None [])) = Inr (Value (AsyncIterable (?d [?b, ?c, ?t] False)))"
    by (simp add: executor_defs example_defs executor_simps eval_nat_numeral titlePatch_def)
  note first = seq[THEN conjunct2, THEN conjunct1, rule_format]
    and ended = seq[THEN conjunct2, THEN conjunct2, THEN conjunct1, rule_format]
    and raced = seq[THEN conjunct2, THEN conjunct2, THEN conjunct2, THEN conjunct1, rule_format]
    and race = seq[THEN conjunct2, THEN conjunct2, THEN conjunct2, THEN conjunct2, THEN conjunct1,
                 rule_format]
  have q: "subsequentPayloads (snd (execute (request exampleSchema
        [exampleOperation QUERY
           [FieldSelection (streamed ''tags'' 1), deferred [plainField ''title'']]]
        exampleRoot None []))) = [?b, ?c, ?t]"
    using seq[THEN conjunct1, rule_format] e by simp
  have n0: "dispatcher_next ?tie (?d [?b, ?c, ?t] False) 0 =
      Some (IterValue (InitialPayload (Some ?initial) True), ?d [?b, ?c, ?t] True, 0)"
    using first[of "?d [?b, ?c, ?t] False" 0] by simp
  have n1: "dispatcher_next ?tie (?d [?b, ?c, ?t] True) 0 =
      Some (IterValue (PatchPayload titlePatch True), ?d [?b, ?c] True, 0)"
    using raced[of "?d [?b, ?c, ?t] True" 0] race[of "?d [?b, ?c, ?t] True" 0]
    by (auto simp: race_defs)
  have n2: "dispatcher_next ?tie (?d [?b, ?c] True) 0 =
      Some (IterValue (PatchPayload (examplePatch 1 ''b'') True), ?d [?c] True, 0)"
    using raced[of "?d [?b, ?c] True" 0] race[of "?d [?b, ?c] True" 0]
    by (auto simp: race_defs)
  have n3: "dispatcher_next ?tie (?d [?c] True) 0 =
      Some (IterValue (PatchPayload (examplePatch 2 ''c'') False), ?d [] True, 0)"
    using raced[of "?d [?c] True" 0] race[of "?d [?c] True" 0]
    by (auto simp: race_defs)
  have n4: "dispatcher_next ?tie (?d [] True) 0 = Some (IterDone, ?d [] True, 0)"
    using ended[of "?d [] True" 0] by (simp add: race_defs)
  have A: "map_option (\<lambda>s. nextResults ?tie 5 (snd s) (fst s))
     (returnedSequence (fst (execute (request exampleSchema
        [exampleOperation QUERY
           [FieldSelection (streamed ''tags'' 1), deferred [plainField ''title'']]]
        exampleRoot None [])))) =
     Some [IterValue (InitialPayload (Some ?initial) True),
           IterValue (PatchPayload titlePatch True),
           IterValue (PatchPayload (examplePatch 1 ''b'') True),
           IterValue (PatchPayload (examplePatch 2 ''c'') False),
           IterDone]"
    unfolding e using n0 n1 n2 n3 n4 by (simp add: eval_nat_numeral)
  let ?tie' = "\<lambda>cs :: payloadPromise list. 0 :: nat"
  let ?fb = "\<lparr>pid = 0, pushedAt = 1, settlement = Fulfilled 2 (IterValue
             \<lparr>drData = CLeaf (RPrim (JStr ''b'')), drPath = [Key ''feed'', Index 1],
              drLabel = None, drErrors = None\<rparr>)\<rparr>"
  let ?fd = "\<lparr>pid = 1, pushedAt = 2, settlement = Fulfilled 2 IterDone\<rparr>
               :: payloadPromise"
  let ?initial' = "\<lparr>resultErrors = None,
                   resultData = Some (CObject [(''feed'', CList [CLeaf (RPrim (JStr ''a''))])])\<rparr>"
  let ?store' = "(\<lambda>_. [])(Suc 0 := [], Suc (Suc 0) := []) :: nat \<Rightarrow> gerror list"
  let ?d' = "\<lambda>qs flag. \<lparr>payloads = qs, initialResult = Some ?initial',
                        hasReturnedInitialResult = flag, payloadErrors = ?store'\<rparr>"
  note seq' = dispatcher_sequence[where a = "request exampleSchema
        [exampleOperation QUERY [FieldSelection (streamed ''feed'' 1)]] tagsRoot None []"
      and ?t0.0 = 1 and ?d0.0 = "?d' [?fb, ?fd] False" and tie = ?tie']
  have e': "fst (execute (request exampleSchema
        [exampleOperation QUERY [FieldSelection (streamed ''feed'' 1)]] tagsRoot None [])) =
      Inr (Promise (Fulfilled 1 (AsyncIterable (?d' [?fb, ?fd] False))))"
    by (simp add: executor_defs example_defs executor_simps eval_nat_numeral tagsRoot_def)
  note first' = seq'[THEN conjunct2, THEN conjunct1, rule_format]
    and ended' = seq'[THEN conjunct2, THEN conjunct2, THEN conjunct1, rule_format]
    and raced' = seq'[THEN conjunct2, THEN conjunct2, THEN conjunct2, THEN conjunct1, rule_format]
    and race' = seq'[THEN conjunct2, THEN conjunct2, THEN conjunct2, THEN conjunct2,
                  THEN conjunct1, rule_format]
  have m0: "dispatcher_next ?tie' (?d' [?fb, ?fd] False) 1 =
      Some (IterValue (InitialPayload (Some ?initial') True), ?d' [?fb, ?fd] True, 1)"
    using first'[of "?d' [?fb, ?fd] False" 1] by simp
  have m1: "dispatcher_next ?tie' (?d' [?fb, ?fd] True) 1 =
      Some (IterValue (PatchPayload
             \<lparr>drData = CLeaf (RPrim (JStr ''b'')), drPath = [Key ''feed'', Index 1],
              drLabel = None, drErrors = None\<rparr> True), ?d' [?fd] True, 2)"
    using raced'[of "?d' [?fb, ?fd] True" 1] race'[of "?d' [?fb, ?fd] True" 1]
    by (auto simp: race_defs)
  have m2: "dispatcher_next ?tie' (?d' [?fd] True) 2 =
      Some (IterValue (HasNextOnly False), ?d' [] True, 2)"
    using raced'[of "?d' [?fd] True" 2] race'[of "?d' [?fd] True" 2]
    by (auto simp: race_defs)
  have m3: "dispatcher_next ?tie' (?d' [] True) 2 = Some (IterDone, ?d' [] True, 2)"
    using ended'[of "?d' [] True" 2] by (simp add: race_defs)
  have B: "map_option (\<lambda>s. nextResults ?tie' 4 (snd s) (fst s))
     (returnedSequence (fst (execute (request exampleSchema
        [exampleOperation QUERY [FieldSelection (streamed ''feed'' 1)]] tagsRoot None [])))) =
     Some [IterValue (InitialPayload (Some ?initial') True),
           IterValue (PatchPayload
             \<lparr>drData = CLeaf (RPrim (JStr ''b'')), drPath = [Key ''feed'', Index 1],
              drLabel = None, drErrors = None\<rparr> True),
           IterValue (HasNextOnly False),
           IterDone]"
    unfolding e' using m0 m1 m2 m3 by (simp add: eval_nat_numeral)
  have C: "\<exists>result.
      dispatcher_race ?tie
        (exampleDispatcher
           [\<lparr>pid = 0, pushedAt = 0, settlement = Fulfilled 3 IterDone\<rparr>,
            \<lparr>pid = 1, pushedAt = 0,
             settlement = Fulfilled 1 (IterValue (examplePatch 3 ''d''))\<rparr>]) 0 = Some result"
    using seq[THEN conjunct2, THEN conjunct2, THEN conjunct2, THEN conjunct2, THEN conjunct2,
        rule_format, of "exampleDispatcher
           [\<lparr>pid = 0, pushedAt = 0, settlement = Fulfilled 3 IterDone\<rparr>,
            \<lparr>pid = 1, pushedAt = 0,
             settlement = Fulfilled 1 (IterValue (examplePatch 3 ''d''))\<rparr>]" 0]
    by (simp add: exampleDispatcher_def queueAt_def)
  from q A B C show ?thesis by simp
qed
section \<open>Errors of deferred patches\<close>

text \<open>
  C3 at two inputs. A fragment deferred during object sub-selection: the error of its
  field is appended to the fresh list at address 1, which the payload carries, and the main
  accumulator at address 0 stays empty. The same fragment deferred at the operation root:
  \<open>executeOperation\<close> allocates the fresh list at address 1 and hands it to the
  dispatcher, but executes the patch's fields with \<^verbatim>\<open>exeContext.errors\<close>; the error is
  appended to the main accumulator and shows up in the initial result, the patch's own list
  stays empty and its payload carries no errors.
\<close>

theorem root_patch_errors_reach_main_accumulator:
  "errorLists (snd (execute (request exampleSchema
       [exampleOperation QUERY
          [FieldSelection (fieldWith ''friend'' [plainField ''nick'', deferred [plainField ''fail'']])]]
       exampleRoot None []))) 0 = [] \<and>
   errorLists (snd (execute (request exampleSchema
       [exampleOperation QUERY
          [FieldSelection (fieldWith ''friend'' [plainField ''nick'', deferred [plainField ''fail'']])]]
       exampleRoot None []))) 1 =
     [\<lparr>message = ''boom'', errNodes = Some [fieldWith ''fail'' []],
       errPath = Some [Key ''friend'', Key ''fail'']\<rparr>] \<and>
   map settlement (subsequentPayloads (snd (execute (request exampleSchema
       [exampleOperation QUERY
          [FieldSelection (fieldWith ''friend'' [plainField ''nick'', deferred [plainField ''fail'']])]]
       exampleRoot None [])))) =
     [Fulfilled 0 (IterValue \<lparr>drData = CObject [(''fail'', CNull)], drPath = [Key ''friend''],
                              drLabel = None, drErrors = Some 1\<rparr>)] \<and>
   errorLists (snd (execute (request exampleSchema
       [exampleOperation QUERY [plainField ''title'', deferred [plainField ''fail'']]]
       exampleRoot None []))) 0 =
     [\<lparr>message = ''boom'', errNodes = Some [fieldWith ''fail'' []],
       errPath = Some [Key ''fail'']\<rparr>] \<and>
   errorLists (snd (execute (request exampleSchema
       [exampleOperation QUERY [plainField ''title'', deferred [plainField ''fail'']]]
       exampleRoot None []))) 1 = [] \<and>
   map settlement (subsequentPayloads (snd (execute (request exampleSchema
       [exampleOperation QUERY [plainField ''title'', deferred [plainField ''fail'']]]
       exampleRoot None [])))) =
     [Fulfilled 0 (IterValue \<lparr>drData = CObject [(''fail'', CNull)], drPath = [],
                              drLabel = None, drErrors = None\<rparr>)]"
  by (simp add: executor_defs example_defs executor_simps)

section \<open>A failing element of an async sequence\<close>





section \<open>Streamed lists\<close>

lemma completeListItems_Nil:
  "completeListItems ctx itemType fieldNodes info p stream [] index completedResults errors now st =
     (if list_ex isPending completedResults
      then (Inr (Promise (mapPromise CList (promiseAll now completedResults))), st)
      else (Inr (Value (CList (readyValues completedResults))), st))"
  by (subst completeListItems.simps) simp

lemma completeListItems_streamed:
  assumes "streamsFrom stream index"
  shows "completeListItems ctx itemType fieldNodes info p stream (item # rest) index
           completedResults errors now st =
         completeListItems ctx itemType fieldNodes info p stream rest (Suc index)
           completedResults errors now
           (addValue ctx (addPath (Some p) (Index index) None) item fieldNodes info itemType
              (streamLabelOf stream) now st)"
  using assms by (subst completeListItems.simps) (simp add: Let_def)

lemma completeListItems_inline:
  assumes "\<not> streamsFrom stream index"
  shows "completeListItems ctx itemType fieldNodes info p stream (item # rest) index
           completedResults errors now st =
         (case completeListItem ctx itemType fieldNodes info (addPath (Some p) (Index index) None)
                 item errors now st of
            (Inl e, st') \<Rightarrow> (Inl e, st')
          | (Inr completedItem, st') \<Rightarrow>
              completeListItems ctx itemType fieldNodes info p stream rest (Suc index)
                (completedResults @ [completedItem]) errors now st')"
  using assms by (subst completeListItems.simps) (simp add: Let_def completeListItem_def)

lemma completeListItems_stream_split:
  assumes "\<And>i. streamsFrom stream i = (n \<le> i)"
  shows "completeListItems ctx itemType fieldNodes info p stream items index completedResults
           errors now st =
         (case completeListItems ctx itemType fieldNodes info p None (take (n - index) items) index
                 completedResults errors now st of
            (Inl e, st1) \<Rightarrow> (Inl e, st1)
          | (Inr inline, st1) \<Rightarrow>
              (Inr inline,
               dispatchFrom ctx p fieldNodes info itemType (streamLabelOf stream) now
                 (max index n) (drop (n - index) items) st1))"
proof (induction items arbitrary: index completedResults st)
  case Nil
  show ?case by (simp add: completeListItems_Nil)
next
  case (Cons item rest)
  have none: "\<And>i. \<not> streamsFrom None i" by (simp add: streamsFrom_def)
  show ?case
  proof (cases "n \<le> index")
    case True
    then have s: "streamsFrom stream index" using assms by simp
    from True have m: "max index n = index" "max (Suc index) n = Suc index" by simp_all
    show ?thesis
      using True Cons[of "Suc index"] m
      by (simp add: completeListItems_streamed[OF s] completeListItems_Nil)
  next
    case False
    then have s: "\<not> streamsFrom stream index" using assms by simp
    from False obtain k where k: "n - index = Suc k" "n - Suc index = k"
      by (metis Suc_diff_Suc not_le)
    from False have m: "max index n = n" "max (Suc index) n = n" by simp_all
    show ?thesis
      using Cons[of "Suc index"] k m
      by (simp add: completeListItems_inline[OF s] completeListItems_inline[OF none]
          split: prod.splits sum.splits)
  qed
qed

lemma length_readyValues:
  "\<not> list_ex isPending xs \<Longrightarrow> length (readyValues xs) = length xs"
  by (induction xs rule: readyValues.induct) auto

lemma allFulfilled_length: "allFulfilled now xs = Some r \<Longrightarrow> length (snd r) = length xs"
  by (induction now xs arbitrary: r rule: allFulfilled.induct) (auto split: option.splits)

lemma promiseAll_length: "promiseAll now xs = Fulfilled t vs \<Longrightarrow> length vs = length xs"
  by (auto simp: promiseAll_def split: option.splits dest: allFulfilled_length)

lemma completeListItems_length:
  assumes "completeListItems ctx itemType fieldNodes info p None items index completedResults
             errors now st = (Inr r, st1)"
  shows "(\<forall>vs. r = Value (CList vs) \<longrightarrow> length vs = length completedResults + length items) \<and>
         (\<forall>t v. r = Promise (Fulfilled t v) \<longrightarrow>
            (\<exists>vs. v = CList vs \<and> length vs = length completedResults + length items))"
  using assms
proof (induction items arbitrary: index completedResults st)
  case Nil
  then show ?case
    by (auto simp: completeListItems_Nil length_readyValues split: if_splits
        elim!: mapPromise.elims dest: promiseAll_length)
next
  case (Cons item rest)
  have none: "\<not> streamsFrom None index" by (simp add: streamsFrom_def)
  from Cons.prems obtain c st' where
    c: "completeListItems ctx itemType fieldNodes info p None rest (Suc index)
          (completedResults @ [c]) errors now st' = (Inr r, st1)"
    by (auto simp: completeListItems_inline[OF none] split: prod.splits sum.splits)
  from Cons.IH[OF c] show ?case by simp
qed


text \<open>
  C4. A list field whose first node carries an active \<^verbatim>\<open>@stream\<close> with
  \<open>initialCount\<close> \<open>n \<ge> 0\<close>, over a synchronous iterable: the field completes exactly
  as the plain list of the first \<open>n\<close> elements does, each element at the path of its
  index; when that yields a list, every element from index \<open>n\<close> on has been handed to
  the dispatcher with \<open>addValue\<close>, in source order, one patch each; when completing an
  inline element throws, the field throws and nothing is dispatched. The list returned, at
  once or when its promise fulfils, has \<open>min n L\<close> entries.
\<close>

theorem completeListValue_stream:
  assumes stream: "getStreamValues fieldNodes = Inr (Some sv)"
    and count: "initialCount sv = Some n"
    and nonneg: "0 \<le> n"
  shows
    "completeListValue ctx itemType fieldNodes info p (RArray items) errors now st =
       (case completeListItems ctx itemType fieldNodes info p None (take (nat n) items) 0 []
               errors now st of
          (Inl e, st1) \<Rightarrow> (Inl e, st1)
        | (Inr inline, st1) \<Rightarrow>
            (Inr inline,
             dispatchFrom ctx p fieldNodes info itemType (streamLabelValue sv) now (nat n)
               (drop (nat n) items) st1)) \<and>
     (\<forall>r st1.
        completeListItems ctx itemType fieldNodes info p None (take (nat n) items) 0 []
          errors now st = (Inr r, st1) \<longrightarrow>
        (\<forall>vs. r = Value (CList vs) \<longrightarrow> length vs = min (nat n) (length items)) \<and>
        (\<forall>t v. r = Promise (Fulfilled t v) \<longrightarrow>
           (\<exists>vs. v = CList vs \<and> length vs = min (nat n) (length items))))"
proof (intro conjI allI impI)
  have s: "\<And>i. streamsFrom (Some sv) i = (nat n \<le> i)"
    using count nonneg by (auto simp: streamsFrom_def)
  show "completeListValue ctx itemType fieldNodes info p (RArray items) errors now st =
       (case completeListItems ctx itemType fieldNodes info p None (take (nat n) items) 0 []
               errors now st of
          (Inl e, st1) \<Rightarrow> (Inl e, st1)
        | (Inr inline, st1) \<Rightarrow>
            (Inr inline,
             dispatchFrom ctx p fieldNodes info itemType (streamLabelValue sv) now (nat n)
               (drop (nat n) items) st1))"
    using completeListItems_stream_split[of "Some sv" "nat n", OF s, where index = 0] stream
    by (simp add: completeListValue.simps streamLabelOf_def split: prod.splits sum.splits)
next
  fix r st1 vs
  assume a: "completeListItems ctx itemType fieldNodes info p None (take (nat n) items) 0 []
          errors now st = (Inr r, st1)" and r: "r = Value (CList vs)"
  from completeListItems_length[OF a] r show "length vs = min (nat n) (length items)"
    by (simp add: min.commute)
next
  fix r st1 t v
  assume a: "completeListItems ctx itemType fieldNodes info p None (take (nat n) items) 0 []
          errors now st = (Inr r, st1)" and r: "r = Promise (Fulfilled t v)"
  from completeListItems_length[OF a] r
  show "\<exists>vs. v = CList vs \<and> length vs = min (nat n) (length items)"
    by (simp add: min.commute)
qed

theorem completeListValue_stream_witness:
  "completeListValue (exampleContext exampleSchema) GraphQLString [streamed ''tags'' 1]
     \<lparr>infoFieldName = ''tags'', infoParentType = ''Query'',
      infoPath = Path None (Key ''tags'') (Some ''Query'')\<rparr>
     (Path None (Key ''tags'') (Some ''Query''))
     (RArray [RPrim (JStr ''a''), RPrim (JStr ''b''), RPrim (JStr ''c'')]) 0 0 initialState
   = (Inr (Value (CList [CLeaf (RPrim (JStr ''a''))])),
      dispatchFrom (exampleContext exampleSchema) (Path None (Key ''tags'') (Some ''Query''))
        [streamed ''tags'' 1]
        \<lparr>infoFieldName = ''tags'', infoParentType = ''Query'',
         infoPath = Path None (Key ''tags'') (Some ''Query'')\<rparr>
        GraphQLString None 0 1 [RPrim (JStr ''b''), RPrim (JStr ''c'')] initialState) \<and>
   map settlement (subsequentPayloads (snd (execute (request exampleSchema
       [exampleOperation QUERY [FieldSelection (streamed ''tags'' 1)]] exampleRoot None [])))) =
     [Fulfilled 0 (IterValue \<lparr>drData = CLeaf (RPrim (JStr ''b'')),
                              drPath = [Key ''tags'', Index 1], drLabel = None,
                              drErrors = None\<rparr>),
      Fulfilled 0 (IterValue \<lparr>drData = CLeaf (RPrim (JStr ''c'')),
                              drPath = [Key ''tags'', Index 2], drLabel = None,
                              drErrors = None\<rparr>)]"
proof -
  let ?sv = "\<lparr>initialCount = Some 1, streamLabelValue = None\<rparr>"
  have g: "getStreamValues [streamed ''tags'' 1] = Inr (Some ?sv)"
    by (simp add: getStreamValues_def streamed_def)
  have inline: "completeListItems (exampleContext exampleSchema) GraphQLString [streamed ''tags'' 1]
     \<lparr>infoFieldName = ''tags'', infoParentType = ''Query'',
      infoPath = Path None (Key ''tags'') (Some ''Query'')\<rparr>
     (Path None (Key ''tags'') (Some ''Query'')) None [RPrim (JStr ''a'')] 0 [] 0 0 initialState
     = (Inr (Value (CList [CLeaf (RPrim (JStr ''a''))])), initialState)"
    by (simp add: executor_simps executor_defs example_defs)
  have a: "completeListValue (exampleContext exampleSchema) GraphQLString [streamed ''tags'' 1]
     \<lparr>infoFieldName = ''tags'', infoParentType = ''Query'',
      infoPath = Path None (Key ''tags'') (Some ''Query'')\<rparr>
     (Path None (Key ''tags'') (Some ''Query''))
     (RArray [RPrim (JStr ''a''), RPrim (JStr ''b''), RPrim (JStr ''c'')]) 0 0 initialState
   = (Inr (Value (CList [CLeaf (RPrim (JStr ''a''))])),
      dispatchFrom (exampleContext exampleSchema) (Path None (Key ''tags'') (Some ''Query''))
        [streamed ''tags'' 1]
        \<lparr>infoFieldName = ''tags'', infoParentType = ''Query'',
         infoPath = Path None (Key ''tags'') (Some ''Query'')\<rparr>
        GraphQLString None 0 1 [RPrim (JStr ''b''), RPrim (JStr ''c'')] initialState)"
    using completeListValue_stream[OF g, of 1 "exampleContext exampleSchema" GraphQLString
            "\<lparr>infoFieldName = ''tags'', infoParentType = ''Query'',
              infoPath = Path None (Key ''tags'') (Some ''Query'')\<rparr>"
            "Path None (Key ''tags'') (Some ''Query'')"
            "[RPrim (JStr ''a''), RPrim (JStr ''b''), RPrim (JStr ''c'')]" 0 0 initialState]
      inline
    by simp
  have b: "map settlement (subsequentPayloads (snd (execute (request exampleSchema
       [exampleOperation QUERY [FieldSelection (streamed ''tags'' 1)]] exampleRoot None [])))) =
     [Fulfilled 0 (IterValue \<lparr>drData = CLeaf (RPrim (JStr ''b'')),
                              drPath = [Key ''tags'', Index 1], drLabel = None,
                              drErrors = None\<rparr>),
      Fulfilled 0 (IterValue \<lparr>drData = CLeaf (RPrim (JStr ''c'')),
                              drPath = [Key ''tags'', Index 2], drLabel = None,
                              drErrors = None\<rparr>)]"
    by (simp add: executor_defs example_defs executor_simps)
  from a b show ?thesis by simp
qed
section \<open>Serial execution of mutations\<close>

lemma startsWith_append: "startsWith pre xs \<Longrightarrow> startsWith pre (xs @ ys)"
proof -
  assume a: "startsWith pre xs"
  then have "length (take (length pre) xs) = length pre" by (simp add: startsWith_def)
  then have "length pre \<le> length xs" by simp
  with a show ?thesis by (simp add: startsWith_def)
qed

lemma startsWith_refl [simp]: "startsWith xs xs"
  by (simp add: startsWith_def)

lemma startsWith_Nil [simp]: "startsWith [] xs"
  by (simp add: startsWith_def)

lemma pathToArrayOpt_Some [simp]: "pathToArrayOpt (Some p) = pathToArray p"
  by (simp add: pathToArrayOpt_def)

lemma pathToArray_addPath: "pathToArray (addPath p k t) = pathToArrayOpt p @ [k]"
  by (cases p) (simp_all add: addPath_def pathToArrayOpt_def)

lemma startsWith_addPath:
  "startsWith pre (pathToArrayOpt p) \<Longrightarrow> startsWith pre (pathToArray (addPath p k t))"
  by (simp add: pathToArray_addPath startsWith_append)

lemma eventsFrom_refl [simp]: "eventsFrom pre t0 old old"
  by (simp add: eventsFrom_def)

lemma eventsFrom_iff:
  "eventsFrom pre t0 old new \<longleftrightarrow>
     (\<exists>added. new = old @ added \<and>
        list_all (\<lambda>ev. startsWith pre (eventPath ev) \<and> t0 \<le> eventTime ev) added)"
proof
  assume "eventsFrom pre t0 old new"
  then have "new = old @ drop (length old) new"
    and "list_all (\<lambda>ev. startsWith pre (eventPath ev) \<and> t0 \<le> eventTime ev) (drop (length old) new)"
    by (simp_all add: eventsFrom_def, metis append_take_drop_id)
  then show "\<exists>added. new = old @ added \<and>
        list_all (\<lambda>ev. startsWith pre (eventPath ev) \<and> t0 \<le> eventTime ev) added"
    by blast
next
  assume "\<exists>added. new = old @ added \<and>
        list_all (\<lambda>ev. startsWith pre (eventPath ev) \<and> t0 \<le> eventTime ev) added"
  then show "eventsFrom pre t0 old new" by (auto simp: eventsFrom_def)
qed

lemma eventsFrom_trans:
  "eventsFrom pre t0 a b \<Longrightarrow> eventsFrom pre t0 b c \<Longrightarrow> eventsFrom pre t0 a c"
  unfolding eventsFrom_iff by auto

lemma eventsFrom_snoc:
  "startsWith pre q \<Longrightarrow> t0 \<le> t \<Longrightarrow> eventsFrom pre t0 old (old @ [ResolverCalled q t])"
  unfolding eventsFrom_iff by simp

lemma events_pushError [simp]: "events (pushError r t e st) = events st"
  by (simp add: pushError_def)

lemma events_newErrorList [simp]: "events (snd (newErrorList st)) = events st"
  by (simp add: newErrorList_def)

lemma events_pushPayload [simp]: "events (snd (pushPayload t pr st)) = events st"
  by (simp add: pushPayload_def)

lemma events_settlePayload [simp]: "events (settlePayload i pr st) = events st"
  by (simp add: settlePayload_def)

lemma events_logEvent [simp]: "events (logEvent e st) = events st @ [e]"
  by (simp add: logEvent_def)

lemma events_handleFieldError [simp]:
  "events (snd (handleFieldError e returnType errors t st)) = events st"
  by (simp add: handleFieldError_def)

lemma events_catchFieldError [simp]:
  "events (snd (catchFieldError fieldNodes p returnType errors pr st)) = events st"
  by (cases pr) (simp_all add: catchFieldError_def split: prod.splits sum.splits,
      (metis events_handleFieldError snd_conv)+)

lemma events_addFields [simp]: "events (addFields promiseOrData errors label p now st) = events st"
  by (simp add: addFields_def)

lemma settleRaw_Fulfilled_le: "settleRaw now v = Fulfilled t x \<Longrightarrow> now \<le> t"
  by (induction now v rule: settleRaw.induct) auto

lemma settleRaw_Rejected_le: "settleRaw now v = Rejected t e \<Longrightarrow> now \<le> t"
  by (induction now v rule: settleRaw.induct) auto

lemma leafResult_from: "t0 \<le> now \<Longrightarrow> settledFrom t0 (leafResult now v)"
proof (cases "settleRaw now v")
  case Unsettled
  then show ?thesis by (simp add: leafResult_def)
next
  case (Fulfilled t x)
  assume "t0 \<le> now"
  with settleRaw_Fulfilled_le[OF Fulfilled] Fulfilled show ?thesis by (simp add: leafResult_def)
next
  case (Rejected t e)
  assume "t0 \<le> now"
  with settleRaw_Rejected_le[OF Rejected] Rejected show ?thesis by (simp add: leafResult_def)
qed

lemma firstRejection_from:
  "list_all (settledFrom t0) xs \<Longrightarrow> firstRejection xs = Some r \<Longrightarrow> t0 \<le> fst r"
  by (induction xs arbitrary: r rule: firstRejection.induct)
     (auto split: option.splits if_splits)

lemma allFulfilled_from:
  "t0 \<le> now \<Longrightarrow> allFulfilled now xs = Some r \<Longrightarrow> t0 \<le> fst r"
  by (induction now xs arbitrary: r rule: allFulfilled.induct)
     (auto split: option.splits simp: max_def)

lemma promiseAll_from:
  "t0 \<le> now \<Longrightarrow> list_all (settledFrom t0) xs \<Longrightarrow> settledFrom t0 (Promise (promiseAll now xs))"
  by (auto simp: promiseAll_def split: option.splits
        dest: firstRejection_from allFulfilled_from)

lemma mapPromise_from [simp]:
  "settledFrom t0 (Promise (mapPromise f pr)) = settledFrom t0 (Promise pr)"
  by (cases pr) simp_all

lemma promiseForObject_from:
  "t0 \<le> now \<Longrightarrow> list_all (settledFrom t0) (map snd results) \<Longrightarrow>
   settledFrom t0 (Promise (promiseForObject now results))"
  by (simp add: promiseForObject_def promiseAll_from)

lemma settleWith_from:
  "t0 \<le> t \<Longrightarrow> settlesFrom t0 r \<Longrightarrow> settledFrom t0 (Promise (settleWith t r))"
  by (cases "(t, r)" rule: settleWith.cases) auto

lemma catchFieldError_from:
  "settledFrom t0 (Promise pr) \<Longrightarrow>
   settledFrom t0 (Promise (fst (catchFieldError fieldNodes p returnType errors pr st)))"
  by (cases pr) (auto simp: catchFieldError_def split: prod.splits sum.splits)

lemma objSet_from:
  "list_all (settledFrom t0) (map snd results) \<Longrightarrow> settledFrom t0 r \<Longrightarrow>
   list_all (settledFrom t0) (map snd (objSet k r results))"
  by (induction results) (auto split: if_splits)

lemma resolveOnce_from:
  "t0 \<le> t \<Longrightarrow> list_all (settledFrom t0) completedResults \<Longrightarrow> resolvedFrom t0 resolved \<Longrightarrow>
   resolvedFrom t0 (resolveOnce t completedResults containsPromise resolved)"
  by (auto simp: resolveOnce_def resolvedFrom_def split: option.splits)

lemma completionFrom_trans:
  "eventsFrom pre t0 (events st) (events st1) \<Longrightarrow> completionFrom pre t0 st1 r \<Longrightarrow>
   completionFrom pre t0 st r"
  unfolding completionFrom_def by (auto intro: eventsFrom_trans)

lemma completionFrom_caught:
  assumes "eventsFrom pre t0 (events st) (events st1)" and "settledFrom t0 (Promise pr)"
  shows "completionFrom pre t0 st
           (Inr (Promise (fst (catchFieldError fieldNodes q returnType errors pr st1))),
            snd (catchFieldError fieldNodes q returnType errors pr st1))"
  using assms by (simp add: completionFrom_def catchFieldError_from)

lemma completionFrom_handled:
  assumes "eventsFrom pre t0 (events st) (events st1)"
  shows "completionFrom pre t0 st
           (case handleFieldError e returnType errors t st1 of
              (Inl e, st2) \<Rightarrow> (Inl e, st2)
            | (Inr v, st2) \<Rightarrow> (Inr (Value v), st2))"
  using assms by (simp add: completionFrom_def handleFieldError_def)

lemma serial_events:
  fixes pre :: "pathKey list" and t0 :: nat
  shows "startsWith pre (pathToArrayOpt p1) \<Longrightarrow> t0 \<le> now \<Longrightarrow>
         list_all (settledFrom t0) (map snd results) \<Longrightarrow>
         completionFrom pre t0 st
           (executeFields ctx parentType sourceValue p1 fieldMap errors now results st)"
    and "startsWith pre (pathToArray p) \<Longrightarrow> t0 \<le> now \<Longrightarrow>
         eventsFrom pre t0 (events st)
           (events (snd (executeField ctx parentType source fieldNodes p errors now st))) \<and>
         settlesFromOpt t0 (fst (executeField ctx parentType source fieldNodes p errors now st))"
    and "startsWith pre (pathToArray p) \<Longrightarrow> t0 \<le> now \<Longrightarrow>
         completionFrom pre t0 st
           (completeValue ctx returnType fieldNodes info p result errors now st)"
    and "startsWith pre (pathToArray p) \<Longrightarrow> t0 \<le> now \<Longrightarrow>
         completionFrom pre t0 st
           (completeListValue ctx itemType fieldNodes info p result errors now st)"
    and "startsWith pre (pathToArray p) \<Longrightarrow> t0 \<le> now \<Longrightarrow>
         list_all (settledFrom t0) completedResults \<Longrightarrow>
         completionFrom pre t0 st
           (completeListItems ctx itemType fieldNodes info p stream items index
              completedResults errors now st)"
    and "startsWith pre (pathToArray p) \<Longrightarrow> t0 \<le> now \<Longrightarrow>
         eventsFrom pre t0 (events st)
           (events (addValue ctx p promiseOrData fieldNodes info itemType label now st))"
    and "startsWith pre (pathToArray p) \<Longrightarrow> t0 \<le> now \<Longrightarrow>
         completionFrom pre t0 st
           (completeAsyncIteratorValue ctx itemType fieldNodes info p iterator errors now st)"
    and "startsWith pre (pathToArray p) \<Longrightarrow> t0 \<le> now \<Longrightarrow>
         list_all (settledFrom t0) completedResults \<Longrightarrow> resolvedFrom t0 resolved \<Longrightarrow>
         nextFrom pre t0 st
           (asyncNext ctx itemType fieldNodes info p stream iterator index
              completedResults containsPromise resolved errors now st)"
    and "startsWith pre (pathToArrayOpt p2) \<Longrightarrow> t0 \<le> now \<Longrightarrow>
         eventsFrom pre t0 (events st)
           (events (addAsyncIteratorValue ctx index iterator fieldNodes info itemType p2 label
              now st))"
    and "startsWith pre (pathToArray p) \<Longrightarrow> t0 \<le> now \<Longrightarrow>
         completionFrom pre t0 st
           (completeAbstractValue ctx abstractName resolveType fieldNodes info p result errors
              now st)"
    and "startsWith pre (pathToArray p) \<Longrightarrow> t0 \<le> now \<Longrightarrow>
         completionFrom pre t0 st
           (completeObjectValue ctx objectName fieldNodes info p result errors now st)"
    and "startsWith pre (pathToArray p) \<Longrightarrow> t0 \<le> now \<Longrightarrow>
         completionFrom pre t0 st
           (collectAndExecuteSubfields ctx objectName fieldNodes p result errors now st)"
    and "startsWith pre (pathToArray p) \<Longrightarrow> t0 \<le> now \<Longrightarrow>
         eventsFrom pre t0 (events st)
           (events (snd (executeSubPatches ctx objectName result p subPatches now st)))"
proof (induction ctx parentType sourceValue p1 fieldMap errors now results st
    and ctx parentType source fieldNodes p errors now st
    and ctx returnType fieldNodes info p result errors now st
    and ctx itemType fieldNodes info p result errors now st
    and ctx itemType fieldNodes info p stream items index completedResults errors now st
    and ctx p promiseOrData fieldNodes info itemType label now st
    and ctx itemType fieldNodes info p iterator errors now st
    and ctx itemType fieldNodes info p stream iterator index completedResults containsPromise
        resolved errors now st
    and ctx index iterator fieldNodes info itemType p2 label now st
    and ctx abstractName resolveType fieldNodes info p result errors now st
    and ctx objectName fieldNodes info p result errors now st
    and ctx objectName fieldNodes p result errors now st
    and ctx objectName result p subPatches now st
    rule: executeFields_executeField_completeValue_completeListValue_completeListItems_addValue_completeAsyncIteratorValue_asyncNext_addAsyncIteratorValue_completeAbstractValue_completeObjectValue_collectAndExecuteSubfields_executeSubPatches.induct)
  case (1 ctx parentType sourceValue p fieldMap errors now results st)
  note sw = "1.prems"(1) and tle = "1.prems"(2) and rs = "1.prems"(3)
  show ?case
  proof (cases fieldMap)
    case Nil
    with tle rs show ?thesis
      by (subst executeFields.simps) (simp add: completionFrom_def promiseForObject_from)
  next
    case (Cons entry rest)
    let ?fp = "addPath p (Key (fst entry)) (Some parentType)"
    have swf: "startsWith pre (pathToArray ?fp)" using sw by (rule startsWith_addPath)
    obtain x y where xy: "executeField ctx parentType sourceValue (snd entry) ?fp errors now st = (x, y)"
      by fastforce
    have f: "eventsFrom pre t0 (events st) (events y)" and sx: "settlesFromOpt t0 x"
      using "1.IH"(1)[OF Cons swf tle] xy by simp_all
    show ?thesis
    proof (cases x)
      case (Inl e)
      with Cons xy f show ?thesis
        by (subst executeFields.simps) (simp add: completionFrom_def)
    next
      case (Inr b)
      show ?thesis
      proof (cases b)
        case None
        from "1.IH"(2)[OF Cons xy[symmetric] Inr None sw tle rs] f
        have "completionFrom pre t0 st
                (executeFields ctx parentType sourceValue p rest errors now results y)"
          by (rule completionFrom_trans[rotated])
        with Cons xy Inr None show ?thesis by (subst executeFields.simps) simp
      next
        case (Some r)
        with sx Inr have "settledFrom t0 r" by simp
        with rs have "list_all (settledFrom t0) (map snd (objSet (fst entry) r results))"
          by (rule objSet_from)
        from "1.IH"(3)[OF Cons xy[symmetric] Inr Some sw tle this] f
        have "completionFrom pre t0 st
                (executeFields ctx parentType sourceValue p rest errors now
                   (objSet (fst entry) r results) y)"
          by (rule completionFrom_trans[rotated])
        with Cons xy Inr Some show ?thesis by (subst executeFields.simps) simp
      qed
    qed
  qed
next
  case (2 ctx parentType source fieldNodes p errors now st)
  note sw = "2.prems"(1) and tle = "2.prems"(2)
  have opt: "eventsFrom pre t0 (events st) (events (snd r)) \<and> settlesFromOpt t0 (fst r)"
    if "completionFrom pre t0 st attempt"
      and "r = (case attempt of
                  (Inl rawError, st1) \<Rightarrow>
                    (case handleFieldError (locatedError rawError fieldNodes (pathToArray p))
                            returnType errors now st1 of
                       (Inl e, st2) \<Rightarrow> (Inl e, st2)
                     | (Inr v, st2) \<Rightarrow> (Inr (Some (Value v)), st2))
                | (Inr (Value v), st1) \<Rightarrow> (Inr (Some (Value v)), st1)
                | (Inr (Promise pr), st1) \<Rightarrow>
                    (case catchFieldError fieldNodes (pathToArray p) returnType errors pr st1 of
                       (pr', st2) \<Rightarrow> (Inr (Some (Promise pr')), st2)))"
    for attempt returnType and r :: "(gerror + cval promiseOrValue option) \<times> exeState"
  proof -
    obtain a st1 where at: "attempt = (a, st1)" by fastforce
    from that(1) at have ev: "eventsFrom pre t0 (events st) (events st1)" and sa: "settlesFrom t0 a"
      by (simp_all add: completionFrom_def)
    show ?thesis
    proof (cases a)
      case (Inl rawError)
      with that(2) at ev show ?thesis
        by (auto simp: handleFieldError_def split: prod.splits sum.splits if_splits)
    next
      case (Inr c)
      show ?thesis
      proof (cases c)
        case (Value v)
        with that(2) at ev Inr show ?thesis by simp
      next
        case (Promise pr)
        with sa Inr have sp: "settledFrom t0 (Promise pr)" by simp
        obtain pr' st2 where cf:
          "catchFieldError fieldNodes (pathToArray p) returnType errors pr st1 = (pr', st2)"
          by fastforce
        have "settledFrom t0 (Promise pr')"
          using catchFieldError_from[OF sp, of fieldNodes "pathToArray p" returnType errors st1] cf
          by simp
        moreover have "events st2 = events st1"
          using events_catchFieldError[of fieldNodes "pathToArray p" returnType errors pr st1] cf
          by simp
        ultimately show ?thesis using that(2) at ev Inr Promise cf by simp
      qed
    qed
  qed
  show ?case
  proof (cases fieldNodes)
    case Nil
    then show ?thesis by (simp add: executeField.simps)
  next
    case (Cons node others)
    show ?thesis
    proof (cases "getFieldDef (ctxSchema ctx) parentType node")
      case None
      with Cons show ?thesis by (simp add: executeField.simps)
    next
      case (Some fd)
      let ?info = "buildResolveInfo ctx fd fieldNodes parentType p"
      let ?f = "case fdResolve fd of None \<Rightarrow> ctxFieldResolver ctx | Some f \<Rightarrow> f"
      let ?st0 = "logEvent (ResolverCalled (pathToArray p) now) st"
      have st0: "eventsFrom pre t0 (events st) (events ?st0)"
        using sw tle by (simp add: eventsFrom_snoc)
      let ?attempt = "case getArgumentValues ctx fd node of
                         Inl e \<Rightarrow> (Inl e, st)
                       | Inr args \<Rightarrow>
                           (case ?f source args ?info of
                              Inl e \<Rightarrow> (Inl e, ?st0)
                            | Inr result \<Rightarrow>
                                if isPromise result then
                                  (case settleRaw now result of
                                     Fulfilled t resolved \<Rightarrow>
                                       (let r = completeValue ctx (fdType fd) fieldNodes ?info p
                                                  resolved errors t ?st0
                                        in (Inr (Promise (settleWith t (fst r))), snd r))
                                   | Rejected t e \<Rightarrow> (Inr (Promise (Rejected t e)), ?st0)
                                   | Unsettled \<Rightarrow> (Inr (Promise Unsettled), ?st0))
                                else completeValue ctx (fdType fd) fieldNodes ?info p result
                                       errors now ?st0)"
      have att: "completionFrom pre t0 st ?attempt"
      proof (cases "getArgumentValues ctx fd node")
        case (Inl e)
        then show ?thesis by (simp add: completionFrom_def)
      next
        case (Inr as)
        show ?thesis
        proof (cases "?f source as ?info")
          case e: (Inl e)
          with Inr st0 show ?thesis by (simp add: completionFrom_def)
        next
          case r: (Inr v)
          show ?thesis
          proof (cases "isPromise v")
            case True
            show ?thesis
            proof (cases "settleRaw now v")
              case Unsettled
              with Inr r True st0 show ?thesis by (simp add: completionFrom_def)
            next
              case (Rejected t e)
              then have "now \<le> t" by (rule settleRaw_Rejected_le)
              with Rejected Inr r True st0 tle show ?thesis by (simp add: completionFrom_def)
            next
              case (Fulfilled t resolved)
              then have "now \<le> t" by (rule settleRaw_Fulfilled_le)
              with tle have tle': "t0 \<le> t" by simp
              have "completionFrom pre t0 ?st0
                      (completeValue ctx (fdType fd) fieldNodes ?info p resolved errors t ?st0)"
                using "2.IH"(1)[OF Cons Some refl refl refl Inr refl r True Fulfilled sw tle'] .
              with st0 have "completionFrom pre t0 st
                      (completeValue ctx (fdType fd) fieldNodes ?info p resolved errors t ?st0)"
                by (rule completionFrom_trans)
              with Fulfilled Inr r True tle' show ?thesis
                by (simp add: completionFrom_def Let_def settleWith_from)
            qed
          next
            case False
            have "completionFrom pre t0 ?st0
                    (completeValue ctx (fdType fd) fieldNodes ?info p v errors now ?st0)"
              using "2.IH"(2)[OF Cons Some refl refl refl Inr refl r False sw tle] .
            with st0 have "completionFrom pre t0 st
                    (completeValue ctx (fdType fd) fieldNodes ?info p v errors now ?st0)"
              by (rule completionFrom_trans)
            with Inr r False show ?thesis by simp
          qed
        qed
      qed
      show ?thesis
      proof (rule opt[OF att, where returnType = "fdType fd"])
        show "executeField ctx parentType source fieldNodes p errors now st =
          (case ?attempt of
             (Inl rawError, st1) \<Rightarrow>
               (case handleFieldError (locatedError rawError fieldNodes (pathToArray p))
                       (fdType fd) errors now st1 of
                  (Inl e, st2) \<Rightarrow> (Inl e, st2)
                | (Inr v, st2) \<Rightarrow> (Inr (Some (Value v)), st2))
           | (Inr (Value v), st1) \<Rightarrow> (Inr (Some (Value v)), st1)
           | (Inr (Promise pr), st1) \<Rightarrow>
               (case catchFieldError fieldNodes (pathToArray p) (fdType fd) errors pr st1 of
                  (pr', st2) \<Rightarrow> (Inr (Some (Promise pr')), st2)))"
          unfolding executeField.simps Let_def Cons list.case Some option.case by (rule refl)
      qed
    qed
  qed
next
  case (3 ctx returnType fieldNodes info p result errors now st)
  note sw = "3.prems"(1) and tle = "3.prems"(2)
  show ?case
  proof (cases "errorInstance result")
    case (Some e)
    then show ?thesis by (subst completeValue.simps) (simp add: completionFrom_def)
  next
    case None
    show ?thesis
    proof (cases "isNonNullType returnType")
      case True
      from "3.IH"(1)[OF None True sw tle] None True
      show ?thesis
        by (subst completeValue.simps) (auto simp: Let_def completionFrom_def)
    next
      case nn: False
      show ?thesis
      proof (cases "isNullish result")
        case True
        with None nn show ?thesis by (subst completeValue.simps) (simp add: completionFrom_def)
      next
        case nu: False
        show ?thesis
        proof (cases "isListType returnType")
          case True
          from "3.IH"(2)[OF None nn nu True sw tle] None nn nu True
          show ?thesis by (subst completeValue.simps) simp
        next
          case nl: False
          show ?thesis
          proof (cases returnType)
            case (NonNullT t)
            with nn show ?thesis by simp
          next
            case (ListT t)
            with nl show ?thesis by simp
          next
            case (LeafT name serialize)
            with None nn nu nl tle show ?thesis
              by (subst completeValue.simps)
                 (simp add: completionFrom_def leafResult_from split: sum.splits)
          next
            case (AbstractT name resolveType)
            from "3.IH"(3)[OF None nn nu nl AbstractT sw tle] AbstractT None nn nu nl
            show ?thesis by (subst completeValue.simps) simp
          next
            case (ObjectT name)
            from "3.IH"(4)[OF None nn nu nl ObjectT sw tle] ObjectT None nn nu nl
            show ?thesis by (subst completeValue.simps) simp
          qed
        qed
      qed
    qed
  qed
next
  case (4 ctx itemType fieldNodes info p result errors now st)
  note sw = "4.prems"(1) and tle = "4.prems"(2)
  show ?case
  proof (cases "asyncIterator result")
    case (Some iterator)
    from "4.IH"(2)[OF Some sw tle] Some
    show ?thesis by (subst completeListValue.simps) simp
  next
    case None
    show ?thesis
    proof (cases "iterableItems result")
      case n: None
      with None show ?thesis by (subst completeListValue.simps) (simp add: completionFrom_def)
    next
      case (Some items)
      show ?thesis
      proof (cases "getStreamValues fieldNodes")
        case (Inl e)
        with None Some show ?thesis
          by (subst completeListValue.simps) (simp add: completionFrom_def)
      next
        case (Inr stream)
        from "4.IH"(1)[OF None Some Inr sw tle] None Some Inr
        show ?thesis by (subst completeListValue.simps) simp
      qed
    qed
  qed
next
  case (5 ctx itemType fieldNodes info p stream items index completedResults errors now st)
  note sw = "5.prems"(1) and tle = "5.prems"(2) and cr = "5.prems"(3)
  show ?case
  proof (cases items)
    case Nil
    with tle cr show ?thesis
      by (subst completeListItems.simps) (simp add: completionFrom_def promiseAll_from)
  next
    case (Cons item rest)
    let ?ip = "addPath (Some p) (Index index) None"
    have swi: "startsWith pre (pathToArray ?ip)"
      using sw by (simp add: startsWith_addPath)
    show ?thesis
    proof (cases "streamsFrom stream index")
      case True
      let ?st1 = "addValue ctx ?ip item fieldNodes info itemType (streamLabelOf stream) now st"
      have "eventsFrom pre t0 (events st) (events ?st1)"
        using "5.IH"(1)[OF Cons refl True swi tle] .
      moreover have "completionFrom pre t0 ?st1
          (completeListItems ctx itemType fieldNodes info p stream rest (Suc index)
             completedResults errors now ?st1)"
        using "5.IH"(2)[OF Cons refl True sw tle cr] .
      ultimately have "completionFrom pre t0 st
          (completeListItems ctx itemType fieldNodes info p stream rest (Suc index)
             completedResults errors now ?st1)"
        by (rule completionFrom_trans)
      with Cons True show ?thesis by (subst completeListItems.simps) (simp add: Let_def)
    next
      case False
      let ?step = "if isPromise item
            then case settleRaw now item of
                 Unsettled \<Rightarrow> (Inr (Promise Unsettled), st)
                 | Fulfilled t resolved \<Rightarrow>
                     let r = completeValue ctx itemType fieldNodes info ?ip
                              resolved errors t st;
                         c = catchFieldError fieldNodes (pathToArray ?ip)
                              itemType errors (settleWith t (fst r)) (snd r)
                     in (Inr (Promise (fst c)), snd c)
                 | Rejected t e \<Rightarrow>
                     let c = catchFieldError fieldNodes (pathToArray ?ip)
                              itemType errors (Rejected t e) st
                     in (Inr (Promise (fst c)), snd c)
            else case completeValue ctx itemType fieldNodes info ?ip item
                       errors now st of
                 (Inl rawError, st1) \<Rightarrow>
                   case handleFieldError
                         (locatedError rawError fieldNodes (pathToArray ?ip))
                         itemType errors now st1 of
                   (Inl e, st2) \<Rightarrow> (Inl e, st2)
                   | (Inr v, st2) \<Rightarrow> (Inr (Value v), st2)
                 | (Inr (Value v), st1) \<Rightarrow> (Inr (Value v), st1)
                 | (Inr (Promise pr), st1) \<Rightarrow>
                     let c = catchFieldError fieldNodes (pathToArray ?ip)
                              itemType errors pr st1
                     in (Inr (Promise (fst c)), snd c)"
      have step: "completionFrom pre t0 st ?step"
      proof (cases "isPromise item")
        case True
        show ?thesis
        proof (cases "settleRaw now item")
          case Unsettled
          with True show ?thesis by (simp add: completionFrom_def)
        next
          case (Rejected t e)
          then have "now \<le> t" by (rule settleRaw_Rejected_le)
          with tle have "settledFrom t0 (Promise (Rejected t e :: cval promise))" by simp
          with Rejected True show ?thesis
            by (simp add: Let_def completionFrom_caught)
        next
          case (Fulfilled t resolved)
          then have "now \<le> t" by (rule settleRaw_Fulfilled_le)
          with tle have tle': "t0 \<le> t" by simp
          let ?r = "completeValue ctx itemType fieldNodes info ?ip resolved errors t st"
          have r: "completionFrom pre t0 st ?r"
            using "5.IH"(3)[OF Cons refl False True Fulfilled swi tle'] .
          then have "settledFrom t0 (Promise (settleWith t (fst ?r)))"
            using tle' by (simp add: completionFrom_def settleWith_from)
          moreover from r have "eventsFrom pre t0 (events st) (events (snd ?r))"
            by (simp add: completionFrom_def)
          ultimately show ?thesis using Fulfilled True
            by (simp add: Let_def completionFrom_caught)
        qed
      next
        case np: False
        obtain a st1 where c: "completeValue ctx itemType fieldNodes info ?ip item errors now st
            = (a, st1)"
          by fastforce
        have "completionFrom pre t0 st (a, st1)"
          using "5.IH"(4)[OF Cons refl False np swi tle] c by simp
        then have ev: "eventsFrom pre t0 (events st) (events st1)" and sa: "settlesFrom t0 a"
          by (simp_all add: completionFrom_def)
        show ?thesis
        proof (cases a)
          case (Inl rawError)
          with np c ev show ?thesis by (simp add: completionFrom_handled)
        next
          case (Inr cv)
          show ?thesis
          proof (cases cv)
            case (Value v)
            with np c ev Inr show ?thesis by (simp add: completionFrom_def)
          next
            case (Promise pr)
            with sa Inr have "settledFrom t0 (Promise pr)" by simp
            with np c ev Inr Promise show ?thesis
              by (simp add: Let_def completionFrom_caught)
          qed
        qed
      qed
      have unfold: "completeListItems ctx itemType fieldNodes info p stream items index
            completedResults errors now st =
          (case ?step of
             (Inl e, st') \<Rightarrow> (Inl e, st')
           | (Inr completedItem, st') \<Rightarrow>
               completeListItems ctx itemType fieldNodes info p stream rest (Suc index)
                 (completedResults @ [completedItem]) errors now st')"
        using Cons False by (subst completeListItems.simps) (simp add: Let_def)
      obtain sx sy where s: "?step = (sx, sy)" by fastforce
      from step s have ev: "eventsFrom pre t0 (events st) (events sy)" and ss: "settlesFrom t0 sx"
        by (simp_all add: completionFrom_def)
      show ?thesis
      proof (cases sx)
        case (Inl e)
        with s ev show ?thesis unfolding unfold by (simp add: completionFrom_def)
      next
        case (Inr b)
        with ss cr have cr': "list_all (settledFrom t0) (completedResults @ [b])" by simp
        have "completionFrom pre t0 sy
            (completeListItems ctx itemType fieldNodes info p stream rest (Suc index)
               (completedResults @ [b]) errors now sy)"
          using "5.IH"(5)[OF Cons refl False refl s[symmetric] Inr sw tle cr'] .
        with ev have "completionFrom pre t0 st
            (completeListItems ctx itemType fieldNodes info p stream rest (Suc index)
               (completedResults @ [b]) errors now sy)"
          by (rule completionFrom_trans)
        with s Inr show ?thesis unfolding unfold by simp
      qed
    qed
  qed
next
  case (6 ctx p promiseOrData fieldNodes info itemType label now st)
  note sw = "6.prems"(1) and tle = "6.prems"(2)
  let ?alloc = "newErrorList st"
  let ?pushed = "pushPayload now Unsettled (snd ?alloc)"
  show ?case
  proof (cases "settleRaw now promiseOrData")
    case Unsettled
    then show ?thesis by (subst addValue.simps) (simp add: Let_def)
  next
    case (Rejected t e)
    then show ?thesis by (subst addValue.simps) (simp add: Let_def)
  next
    case (Fulfilled t resolved)
    then have "now \<le> t" by (rule settleRaw_Fulfilled_le)
    with tle have tle': "t0 \<le> t" by simp
    have "completionFrom pre t0 (snd ?pushed)
            (completeValue ctx itemType fieldNodes info p resolved (fst ?alloc) t (snd ?pushed))"
      using "6.IH"[OF refl refl refl Fulfilled sw tle'] .
    then have "eventsFrom pre t0 (events st)
        (events (snd (completeValue ctx itemType fieldNodes info p resolved (fst ?alloc) t
           (snd ?pushed))))"
      by (simp add: completionFrom_def)
    with Fulfilled show ?thesis by (subst addValue.simps) (simp add: Let_def)
  qed
next
  case (7 ctx itemType fieldNodes info p iterator errors now st)
  note sw = "7.prems"(1) and tle = "7.prems"(2)
  show ?case
  proof (cases "getStreamValues fieldNodes")
    case (Inl e)
    then show ?thesis
      by (subst completeAsyncIteratorValue.simps) (simp add: completionFrom_def)
  next
    case (Inr stream)
    obtain cr rs st1 where n: "asyncNext ctx itemType fieldNodes info p stream iterator 0 [] False
        None errors now st = (cr, rs, st1)"
      by (metis prod_cases3)
    have "eventsFrom pre t0 (events st) (events st1) \<and> list_all (settledFrom t0) cr \<and>
          resolvedFrom t0 rs"
      using "7.IH"[OF Inr sw tle] n by (simp add: resolvedFrom_def nextFrom_def)
    with Inr n show ?thesis
      by (subst completeAsyncIteratorValue.simps)
         (auto simp: completionFrom_def resolvedFrom_def promiseAll_from split: option.splits)
  qed
next
  case (8 ctx itemType fieldNodes info p stream iterator index completedResults containsPromise
      resolved errors now st)
  note sw = "8.prems"(1) and tle = "8.prems"(2) and cr = "8.prems"(3) and rf = "8.prems"(4)
  let ?fp = "addPath (Some p) (Index index) None"
  have swf: "startsWith pre (pathToArray ?fp)"
    using sw by (simp add: startsWith_addPath)
  have ro: "resolvedFrom t0 (resolveOnce now completedResults containsPromise resolved)"
    using tle cr rf by (rule resolveOnce_from)
  show ?case
  proof (cases "streamsFrom stream index")
    case True
    have "eventsFrom pre t0 (events st)
        (events (addAsyncIteratorValue ctx index iterator fieldNodes info itemType (Some p)
           (streamLabelOf stream) now st))"
      using "8.IH"(1)[OF True _ tle] sw by simp
    with True cr ro show ?thesis by (subst asyncNext.simps) (simp add: nextFrom_def)
  next
    case False
    show ?thesis
    proof (cases iterator)
      case Nil
      with False cr ro show ?thesis by (subst asyncNext.simps) (simp add: Let_def nextFrom_def)
    next
      case (Cons pl rest)
      show ?thesis
      proof (cases pl)
        case (PReject d rawError)
        have tle': "t0 \<le> now + d" using tle by simp
        have cr': "list_all (settledFrom t0) (completedResults @ [Value CNull])" using cr by simp
        have "resolvedFrom t0 (resolveOnce (now + d) (completedResults @ [Value CNull])
            containsPromise resolved)"
          using tle' cr' rf by (rule resolveOnce_from)
        with False Cons PReject cr' rf show ?thesis
          by (subst asyncNext.simps)
             (auto simp: Let_def handleFieldError_def nextFrom_def split: prod.splits sum.splits)
      next
        case (PYield d v)
        have tle': "t0 \<le> now + d" using tle by simp
        obtain a y where c: "completeValue ctx itemType fieldNodes info ?fp v errors (now + d) st
            = (a, y)"
          by fastforce
        have "completionFrom pre t0 st (a, y)"
          using "8.IH"(2)[OF False refl Cons PYield swf tle'] c by simp
        then have ev: "eventsFrom pre t0 (events st) (events y)" and sa: "settlesFrom t0 a"
          by (simp_all add: completionFrom_def)
        show ?thesis
        proof (cases a)
          case (Inr b)
          with sa cr have cr': "list_all (settledFrom t0) (completedResults @ [b])" by simp
          let ?n = "asyncNext ctx itemType fieldNodes info p stream rest (Suc index)
              (completedResults @ [b]) (containsPromise \<or> isPending b) resolved errors (now + d) y"
          have "nextFrom pre t0 y ?n"
            using "8.IH"(4)[OF False refl Cons PYield c[symmetric] Inr sw tle' cr' rf] .
          with ev have "nextFrom pre t0 st ?n"
            by (auto simp: nextFrom_def intro: eventsFrom_trans)
          with False Cons PYield c Inr show ?thesis
            by (subst asyncNext.simps) (simp add: Let_def)
        next
          case (Inl rawError)
          obtain h st2 where h: "handleFieldError
              (locatedError rawError fieldNodes (pathToArray ?fp)) itemType errors (now + d) y = (h, st2)"
            by fastforce
          then have "events st2 = events y"
            by (metis events_handleFieldError snd_conv)
          with ev have ev2: "eventsFrom pre t0 (events st) (events st2)" by simp
          have cr': "list_all (settledFrom t0) (completedResults @ [Value CNull])" using cr by simp
          show ?thesis
          proof (cases h)
            case e: (Inl e)
            with False Cons PYield c Inl h ev2 cr' rf show ?thesis
              by (subst asyncNext.simps) (simp add: Let_def nextFrom_def)
          next
            case b: (Inr b)
            have rf': "resolvedFrom t0 (resolveOnce (now + d) (completedResults @ [Value CNull])
                containsPromise resolved)"
              using tle' cr' rf by (rule resolveOnce_from)
            let ?n = "asyncNext ctx itemType fieldNodes info p stream rest (Suc index)
                (completedResults @ [Value CNull]) containsPromise
                (resolveOnce (now + d) (completedResults @ [Value CNull]) containsPromise resolved)
                errors (now + d) st2"
            have "nextFrom pre t0 st2 ?n"
              using "8.IH"(3)[OF False refl Cons PYield c[symmetric] Inl h[symmetric] b sw tle'
                  cr' rf'] .
            with ev2 have "nextFrom pre t0 st ?n"
              by (auto simp: nextFrom_def intro: eventsFrom_trans)
            with False Cons PYield c Inl h b show ?thesis
              by (subst asyncNext.simps) (simp add: Let_def)
          qed
        qed
      qed
    qed
  qed
next
  case (9 ctx index iterator fieldNodes info itemType p label now st)
  note sw = "9.prems"(1) and tle = "9.prems"(2)
  let ?fp = "addPath p (Index index) None"
  let ?alloc = "newErrorList st"
  let ?pushed = "pushPayload now Unsettled (snd ?alloc)"
  have swf: "startsWith pre (pathToArray ?fp)" using sw by (rule startsWith_addPath)
  show ?case
  proof (cases iterator)
    case Nil
    then show ?thesis by (subst addAsyncIteratorValue.simps) (simp add: Let_def)
  next
    case (Cons pl rest)
    show ?thesis
    proof (cases pl)
      case (PReject d rawError)
      with Cons show ?thesis by (subst addAsyncIteratorValue.simps) (simp add: Let_def)
    next
      case (PYield d v)
      have tle': "t0 \<le> now + d" using tle by simp
      let ?st1 = "addAsyncIteratorValue ctx (Suc index) rest fieldNodes info itemType p label
          (now + d) (snd ?pushed)"
      have e1: "eventsFrom pre t0 (events st) (events ?st1)"
        using "9.IH"(1)[OF refl refl refl refl Cons PYield sw tle'] by simp
      obtain a y where c: "completeValue ctx itemType fieldNodes info ?fp v (fst ?alloc) (now + d)
          ?st1 = (a, y)"
        by fastforce
      have "completionFrom pre t0 ?st1 (a, y)"
        using "9.IH"(2)[OF refl refl refl refl Cons PYield refl swf tle'] c by simp
      then have "eventsFrom pre t0 (events ?st1) (events y)" by (simp add: completionFrom_def)
      with e1 have "eventsFrom pre t0 (events st) (events y)" by (rule eventsFrom_trans)
      with Cons PYield c show ?thesis
        by (subst addAsyncIteratorValue.simps)
           (auto simp: Let_def split: sum.splits promiseOrValue.splits)
    qed
  qed
next
  case (10 ctx returnType resolveType fieldNodes info p result errors now st)
  note sw = "10.prems"(1) and tle = "10.prems"(2)
  let ?f = "case resolveType of None \<Rightarrow> (\<lambda>v i. ctxTypeResolver ctx v i returnType) | Some f \<Rightarrow> f"
  show ?case
  proof (cases "?f result info")
    case (Inl e)
    then show ?thesis
      by (subst completeAbstractValue.simps) (simp add: Let_def completionFrom_def)
  next
    case (Inr runtimeType)
    show ?thesis
    proof (cases "isPromise runtimeType")
      case True
      show ?thesis
      proof (cases "settleRaw now runtimeType")
        case Unsettled
        with Inr True show ?thesis
          by (subst completeAbstractValue.simps) (simp add: Let_def completionFrom_def)
      next
        case (Rejected t e)
        then have "now \<le> t" by (rule settleRaw_Rejected_le)
        with Rejected Inr True tle show ?thesis
          by (subst completeAbstractValue.simps) (simp add: Let_def completionFrom_def)
      next
        case (Fulfilled t resolved)
        then have "now \<le> t" by (rule settleRaw_Fulfilled_le)
        with tle have tle': "t0 \<le> t" by simp
        show ?thesis
        proof (cases "ensureValidRuntimeType resolved ctx returnType fieldNodes info")
          case e: (Inl e)
          with Fulfilled Inr True tle' show ?thesis
            by (subst completeAbstractValue.simps) (simp add: Let_def completionFrom_def)
        next
          case v: (Inr objectType)
          have "completionFrom pre t0 st
              (completeObjectValue ctx objectType fieldNodes info p result errors t st)"
            using "10.IH"(1)[OF refl Inr True Fulfilled v sw tle'] .
          with Fulfilled Inr True tle' v show ?thesis
            by (subst completeAbstractValue.simps)
               (simp add: Let_def completionFrom_def settleWith_from)
        qed
      qed
    next
      case False
      show ?thesis
      proof (cases "ensureValidRuntimeType runtimeType ctx returnType fieldNodes info")
        case e: (Inl e)
        with Inr False show ?thesis
          by (subst completeAbstractValue.simps) (simp add: Let_def completionFrom_def)
      next
        case v: (Inr objectType)
        from "10.IH"(2)[OF refl Inr False v sw tle] Inr False v
        show ?thesis by (subst completeAbstractValue.simps) (simp add: Let_def)
      qed
    qed
  qed
next
  case (11 ctx returnType fieldNodes info p result errors now st)
  note sw = "11.prems"(1) and tle = "11.prems"(2)
  show ?case
  proof (cases "isTypeOf (ctxSchema ctx) returnType")
    case None
    from "11.IH"(1)[OF None sw tle] None
    show ?thesis by (subst completeObjectValue.simps) simp
  next
    case (Some f)
    show ?thesis
    proof (cases "f result info")
      case (Inl e)
      with Some show ?thesis by (subst completeObjectValue.simps) (simp add: completionFrom_def)
    next
      case (Inr b)
      show ?thesis
      proof (cases "isPromise b")
        case True
        show ?thesis
        proof (cases "settleRaw now b")
          case Unsettled
          with Some Inr True show ?thesis
            by (subst completeObjectValue.simps) (simp add: completionFrom_def)
        next
          case (Rejected t e)
          then have "now \<le> t" by (rule settleRaw_Rejected_le)
          with Rejected Some Inr True tle show ?thesis
            by (subst completeObjectValue.simps) (simp add: completionFrom_def)
        next
          case (Fulfilled t resolved)
          then have "now \<le> t" by (rule settleRaw_Fulfilled_le)
          with tle have tle': "t0 \<le> t" by simp
          show ?thesis
          proof (cases "truthy resolved")
            case False
            with Fulfilled Some Inr True tle' show ?thesis
              by (subst completeObjectValue.simps) (simp add: completionFrom_def)
          next
            case tr: True
            have "completionFrom pre t0 st
                (collectAndExecuteSubfields ctx returnType fieldNodes p result errors t st)"
              using "11.IH"(2)[OF Some Inr True Fulfilled _ sw tle'] tr by simp
            with Fulfilled Some Inr True tle' tr show ?thesis
              by (subst completeObjectValue.simps)
                 (simp add: Let_def completionFrom_def settleWith_from)
          qed
        qed
      next
        case False
        show ?thesis
        proof (cases "truthy b")
          case True
          from "11.IH"(3)[OF Some Inr False _ sw tle] True Some Inr False
          show ?thesis by (subst completeObjectValue.simps) simp
        next
          case nt: False
          with Some Inr False show ?thesis
            by (subst completeObjectValue.simps) (simp add: completionFrom_def)
        qed
      qed
    qed
  qed
next
  case (12 ctx returnType fieldNodes p result errors now st)
  note sw = "12.prems"(1) and tle = "12.prems"(2)
  let ?collected = "collectSubfields (ctxSchema ctx) returnType fieldNodes"
  obtain x y where xy: "executeFields ctx returnType result (Some p) (fst ?collected) errors now []
      st = (x, y)"
    by fastforce
  have "completionFrom pre t0 st (x, y)"
    using "12.IH"(1)[OF refl _ tle] sw xy by simp
  then have ev: "eventsFrom pre t0 (events st) (events y)" and sx: "settlesFrom t0 x"
    by (simp_all add: completionFrom_def)
  show ?case
  proof (cases x)
    case (Inl e)
    with xy ev show ?thesis
      by (subst collectAndExecuteSubfields.simps) (simp add: Let_def completionFrom_def)
  next
    case (Inr b)
    have "eventsFrom pre t0 (events y)
        (events (snd (executeSubPatches ctx returnType result p (snd ?collected) now y)))"
      using "12.IH"(2)[OF refl xy[symmetric] Inr sw tle] .
    with ev have "eventsFrom pre t0 (events st)
        (events (snd (executeSubPatches ctx returnType result p (snd ?collected) now y)))"
      by (rule eventsFrom_trans)
    with xy Inr sx show ?thesis
      by (subst collectAndExecuteSubfields.simps)
         (auto simp: Let_def completionFrom_def split: prod.splits sum.splits)
  qed
next
  case (13 ctx returnType result p subPatches now st)
  note sw = "13.prems"(1) and tle = "13.prems"(2)
  show ?case
  proof (cases subPatches)
    case Nil
    then show ?thesis by (subst executeSubPatches.simps) simp
  next
    case (Cons subPatch rest)
    let ?alloc = "newErrorList st"
    obtain x y where xy: "executeFields ctx returnType result (Some p) (snd subPatch) (fst ?alloc)
        now [] (snd ?alloc) = (x, y)"
      by fastforce
    have "completionFrom pre t0 (snd ?alloc) (x, y)"
      using "13.IH"(1)[OF Cons refl refl _ tle] sw xy by simp
    then have ev: "eventsFrom pre t0 (events st) (events y)"
      by (simp add: completionFrom_def)
    show ?thesis
    proof (cases x)
      case (Inl e)
      with Cons xy ev show ?thesis
        by (subst executeSubPatches.simps) (simp add: Let_def)
    next
      case (Inr b)
      let ?st2 = "addFields b (fst ?alloc) (fst subPatch) (Some p) now y"
      have "eventsFrom pre t0 (events ?st2)
          (events (snd (executeSubPatches ctx returnType result p rest now ?st2)))"
        using "13.IH"(2)[OF Cons refl refl xy[symmetric] Inr sw tle] .
      with ev have "eventsFrom pre t0 (events st)
          (events (snd (executeSubPatches ctx returnType result p rest now ?st2)))"
        by (auto intro: eventsFrom_trans)
      with Cons xy Inr show ?thesis
        by (subst executeSubPatches.simps) (simp add: Let_def)
    qed
  qed
qed

lemma eventsFrom_mono: "t0 \<le> t1 \<Longrightarrow> eventsFrom pre t1 a b \<Longrightarrow> eventsFrom pre t0 a b"
  unfolding eventsFrom_def by (auto simp: list_all_iff)

lemma settledFrom_mono: "t0 \<le> t1 \<Longrightarrow> settledFrom t1 x \<Longrightarrow> settledFrom t0 x"
  by (cases "(t1, x)" rule: settledFrom.cases) auto

lemma completionFrom_mono:
  "t0 \<le> t1 \<Longrightarrow> completionFrom pre t1 st r \<Longrightarrow> completionFrom pre t0 st r"
  unfolding completionFrom_def
  by (cases "fst r") (auto intro: eventsFrom_mono settledFrom_mono)

lemma settledAt_from: "settledFrom t0 acc \<Longrightarrow> t0 \<le> now \<Longrightarrow> settledAt now acc = Some (t, a) \<Longrightarrow> t0 \<le> t"
  by (cases "(now, acc)" rule: settledAt.cases) auto

lemma serialCallback_from:
  assumes "startsWith pre (pathToArrayOpt p)" and "t0 \<le> t"
  shows "completionFrom pre t0 st (serialCallback ctx parentType sourceValue p results entry t st)"
proof -
  let ?fp = "addPath p (Key (fst entry)) (Some parentType)"
  obtain x y where xy: "executeField ctx parentType sourceValue (snd entry) ?fp 0 t st = (x, y)"
    by fastforce
  have "startsWith pre (pathToArray ?fp)" using assms(1) by (rule startsWith_addPath)
  from serial_events(2)[OF this assms(2), of st ctx parentType sourceValue "snd entry" 0] xy
  have "eventsFrom pre t0 (events st) (events y)" and "settlesFromOpt t0 x" by simp_all
  with xy show ?thesis
    unfolding serialCallback_def completionFrom_def
    by (auto simp: Let_def split: sum.splits option.splits promiseOrValue.splits)
qed

lemma promiseReduce_unsettled:
  "settledAt now acc = None \<Longrightarrow> promiseReduce callbackFn vs acc now st = (Inr acc, st)"
  by (induction vs) (auto elim!: settledAt.elims)

lemma promiseReduce_append:
  "promiseReduce callbackFn (xs @ ys) acc now st =
     (case promiseReduce callbackFn xs acc now st of
        (Inl e, st1) \<Rightarrow> (Inl e, st1)
      | (Inr acc1, st1) \<Rightarrow> promiseReduce callbackFn ys acc1 now st1)"
proof (induction xs arbitrary: acc st)
  case Nil
  show ?case by simp
next
  case (Cons x xs)
  show ?case
  proof (cases acc)
    case (Value a)
    then show ?thesis using Cons.IH by (auto split: prod.splits sum.splits)
  next
    case (Promise pr)
    then show ?thesis using Cons.IH by (cases pr) (auto simp: Let_def)
  qed
qed

lemma promiseReduce_from:
  assumes cb: "\<And>a v t0 t st. t0 \<le> t \<Longrightarrow> completionFrom pre t0 st (callbackFn a v t st)"
  shows "settledAt now acc = Some (t, a) \<Longrightarrow>
         completionFrom pre t st (promiseReduce callbackFn vs acc now st)"
proof (induction vs arbitrary: acc st t a)
  case Nil
  then show ?case
    by (cases "(now, acc)" rule: settledAt.cases) (auto simp: completionFrom_def)
next
  case (Cons v vs)
  have continue: "completionFrom pre t st (promiseReduce callbackFn vs acc1 now st1)"
    if ev: "eventsFrom pre t (events st) (events st1)" and sf: "settledFrom t acc1"
      and vt: "\<forall>b. acc1 = Value b \<longrightarrow> t = now"
    for acc1 st1
  proof (cases "settledAt now acc1")
    case None
    then have "promiseReduce callbackFn vs acc1 now st1 = (Inr acc1, st1)"
      by (rule promiseReduce_unsettled)
    with ev sf show ?thesis by (simp add: completionFrom_def)
  next
    case (Some r)
    obtain t' a' where r: "r = (t', a')" by fastforce
    have le: "t \<le> t'"
      using Some r sf vt by (cases "(now, acc1)" rule: settledAt.cases) auto
    have "completionFrom pre t' st1 (promiseReduce callbackFn vs acc1 now st1)"
      using Cons.IH Some r by simp
    with le have "completionFrom pre t st1 (promiseReduce callbackFn vs acc1 now st1)"
      by (rule completionFrom_mono)
    with ev show ?thesis by (rule completionFrom_trans)
  qed
  show ?case
  proof (cases acc)
    case (Value a0)
    with Cons.prems have t: "t = now" by simp
    obtain x st1 where c: "callbackFn a0 v now st = (x, st1)" by fastforce
    have cf: "completionFrom pre t st (x, st1)" using cb[of t now st a0 v] c t by simp
    show ?thesis
    proof (cases x)
      case (Inl e)
      with Value c cf show ?thesis by (simp add: completionFrom_def)
    next
      case (Inr acc1)
      with cf have "eventsFrom pre t (events st) (events st1)" and "settledFrom t acc1"
        by (simp_all add: completionFrom_def)
      then have "completionFrom pre t st (promiseReduce callbackFn vs acc1 now st1)"
        using t by (intro continue) simp_all
      with Value c Inr show ?thesis by simp
    qed
  next
    case (Promise pr)
    with Cons.prems obtain a0 where pr: "pr = Fulfilled t a0"
      by (cases pr) auto
    let ?r = "callbackFn a0 v t st"
    have cf: "completionFrom pre t st ?r" using cb[of t t st a0 v] by simp
    then have "settledFrom t (Promise (settleWith t (fst ?r)))"
      by (simp add: completionFrom_def settleWith_from)
    moreover from cf have "eventsFrom pre t (events st) (events (snd ?r))"
      by (simp add: completionFrom_def)
    ultimately have "completionFrom pre t st
        (promiseReduce callbackFn vs (Promise (settleWith t (fst ?r))) now (snd ?r))"
      by (intro continue) simp_all
    with Promise pr show ?thesis by (simp add: Let_def)
  qed
qed

lemma executeField_defined:
  assumes "getFieldDef (ctxSchema ctx) parentType node = Some fd"
  shows "fst (executeField ctx parentType source (node # others) p errors now st) \<noteq> Inr None"
  using assms
  by (subst executeField.simps)
     (auto simp: Let_def split: prod.splits sum.splits promiseOrValue.splits)

lemma executeField_None_iff:
  "fst (executeField ctx parentType source nodes p errors now st) = Inr None \<longleftrightarrow>
     (\<exists>node others. nodes = node # others \<and> getFieldDef (ctxSchema ctx) parentType node = None)"
proof (cases nodes)
  case Nil
  then show ?thesis by (subst executeField.simps) simp
next
  case (Cons node others)
  show ?thesis
  proof (cases "getFieldDef (ctxSchema ctx) parentType node")
    case None
    with Cons show ?thesis by (subst executeField.simps) simp
  next
    case (Some fd)
    with Cons executeField_defined[OF Some] show ?thesis by simp
  qed
qed

lemma map_fst_objSet:
  "map fst (objSet k v results) = (if k \<in> set (map fst results) then map fst results
                                   else map fst results @ [k])"
  by (induction results) force+

lemma map_fst_groupAppend:
  "map fst (groupAppend k n g) = (if k \<in> set (map fst g) then map fst g else map fst g @ [k])"
  by (induction k n g rule: groupAppend.induct) force+

lemma collectFieldsImpl_distinct:
  "distinct (map fst (fst acc)) \<Longrightarrow> distinct (map fst (fst (collectFieldsImpl s t sels acc)))"
proof (induction s t sels acc rule: collectFieldsImpl.induct)
  case (1 s t acc)
  then show ?case by simp
next
  case (2 s t n sels acc)
  then show ?case by (simp add: map_fst_groupAppend)
next
  case (3 s t incl d cond sub sels acc)
  then show ?case by (auto simp: Let_def split: option.splits)
qed

lemma collectFields_distinct: "distinct (map fst (fst (collectFields s t sels)))"
  unfolding collectFields_def by (rule collectFieldsImpl_distinct) simp

lemma snd_serialCallback:
  "snd (serialCallback ctx parentType sourceValue p results entry t st) =
   snd (executeField ctx parentType sourceValue (snd entry)
          (addPath p (Key (fst entry)) (Some parentType)) 0 t st)"
  unfolding serialCallback_def
  by (auto simp: Let_def split: prod.splits sum.splits option.splits promiseOrValue.splits)

lemma fst_serialCallback:
  "fst (serialCallback ctx parentType sourceValue p results entry t st) =
   (case fst (executeField ctx parentType sourceValue (snd entry)
                (addPath p (Key (fst entry)) (Some parentType)) 0 t st) of
      Inl e \<Rightarrow> Inl e
    | Inr None \<Rightarrow> Inr (Value results)
    | Inr (Some r) \<Rightarrow> Inr (mapPromiseOrValue (\<lambda>v. objSet (fst entry) v results) r))"
  unfolding serialCallback_def
  by (auto simp: Let_def split: prod.splits sum.splits option.splits promiseOrValue.splits)

lemma promiseReduce_single:
  assumes "settledAt now acc = Some (t, a)"
  shows "snd (promiseReduce callbackFn [v] acc now st) = snd (callbackFn a v t st)"
    and "fst (promiseReduce callbackFn [v] acc now st) =
           (case acc of
              Value x \<Rightarrow> fst (callbackFn a v t st)
            | Promise pr \<Rightarrow> Inr (Promise (settleWith t (fst (callbackFn a v t st)))))"
  using assms
  by (cases "(now, acc)" rule: settledAt.cases;
      auto simp: Let_def split: prod.splits sum.splits)+

lemma settledAt_mapPromiseOrValue:
  "settledAt now (mapPromiseOrValue f r) = map_option (\<lambda>(t, v). (t, f v)) (settledAt now r)"
  by (cases "(now, r)" rule: settledAt.cases) auto

lemma settleWith_settledAt:
  "settledAt now (Promise (settleWith t (Inr r))) = settledAt t r"
  by (cases "(t, r)" rule: settledAt.cases) auto

lemma executeField_Some_defined:
  "fst (executeField ctx parentType source nodes p errors now st) = Inr (Some r) \<Longrightarrow>
   fieldDefined ctx parentType (k, nodes)"
proof (cases nodes)
  case Nil
  assume "fst (executeField ctx parentType source nodes p errors now st) = Inr (Some r)"
  with Nil show ?thesis by (simp add: executeField.simps)
next
  case (Cons node others)
  assume a: "fst (executeField ctx parentType source nodes p errors now st) = Inr (Some r)"
  show ?thesis
  proof (cases "getFieldDef (ctxSchema ctx) parentType node")
    case None
    with Cons a show ?thesis by (simp add: executeField.simps)
  next
    case (Some fd)
    with Cons show ?thesis by (simp add: fieldDefined_def)
  qed
qed

lemma serialCallback_keys:
  assumes "fst (serialCallback ctx parentType sourceValue p results entry t st) = Inr acc1"
      and "settledAt u acc1 = Some (t1, results1)"
      and "fst entry \<notin> set (map fst results)"
  shows "map fst results1 =
           map fst results @ (if fieldDefined ctx parentType entry then [fst entry] else [])"
proof -
  let ?x = "fst (executeField ctx parentType sourceValue (snd entry)
                (addPath p (Key (fst entry)) (Some parentType)) 0 t st)"
  show ?thesis
  proof (cases ?x)
    case (Inl e)
    with assms(1) show ?thesis by (simp add: fst_serialCallback)
  next
    case (Inr b)
    show ?thesis
    proof (cases b)
      case None
      with Inr have "\<not> fieldDefined ctx parentType entry"
        by (auto simp: executeField_None_iff fieldDefined_def)
      moreover from None Inr assms(1) have "acc1 = Value results" by (simp add: fst_serialCallback)
      ultimately show ?thesis using assms(2) by simp
    next
      case (Some r)
      with Inr have "?x = Inr (Some r)" by simp
      then have "fieldDefined ctx parentType (fst entry, snd entry)"
        by (rule executeField_Some_defined)
      then have d: "fieldDefined ctx parentType entry" by simp
      from Some Inr assms(1)
      have "acc1 = mapPromiseOrValue (\<lambda>v. objSet (fst entry) v results) r"
        by (simp add: fst_serialCallback)
      with assms(2) obtain v where "results1 = objSet (fst entry) v results"
        by (auto simp: settledAt_mapPromiseOrValue)
      with d assms(3) show ?thesis by (simp add: map_fst_objSet)
    qed
  qed
qed

lemma promiseReduce_keys:
  assumes "distinct (map fst vs)"
      and "set (map fst vs) \<inter> set (map fst results) = {}"
      and "settledAt now acc = Some (t, results)"
      and "fst (promiseReduce (serialCallback ctx parentType sourceValue p) vs acc now st) = Inr acc'"
      and "settledAt now acc' = Some (t', results')"
  shows "map fst results' = map fst results @ map fst (filter (fieldDefined ctx parentType) vs)"
  using assms
proof (induction vs arbitrary: acc st t results)
  case Nil
  then show ?case by simp
next
  case (Cons v vs)
  let ?cb = "serialCallback ctx parentType sourceValue p"
  let ?r = "?cb results v t st"
  have k: "fst v \<notin> set (map fst results)" using Cons.prems(2) by auto
  have step: "\<exists>acc1 t1 results1.
      promiseReduce ?cb (v # vs) acc now st = promiseReduce ?cb vs acc1 now (snd ?r) \<and>
      settledAt now acc1 = Some (t1, results1) \<and>
      map fst results1 =
        map fst results @ (if fieldDefined ctx parentType v then [fst v] else [])"
  proof (cases acc)
    case (Value a0)
    with Cons.prems(3) have t: "t = now" and a0: "a0 = results" by simp_all
    obtain x st1 where c: "?r = (x, st1)" by fastforce
    show ?thesis
    proof (cases x)
      case (Inl e)
      with Value a0 t c Cons.prems(4) show ?thesis by simp
    next
      case (Inr acc1)
      with Value a0 t c have eq: "promiseReduce ?cb (v # vs) acc now st =
          promiseReduce ?cb vs acc1 now (snd ?r)"
        by simp
      show ?thesis
      proof (cases "settledAt now acc1")
        case None
        then have "promiseReduce ?cb vs acc1 now (snd ?r) = (Inr acc1, snd ?r)"
          by (rule promiseReduce_unsettled)
        with eq Cons.prems(4,5) None show ?thesis by simp
      next
        case (Some s)
        obtain t1 results1 where s: "s = (t1, results1)" by fastforce
        have "map fst results1 =
            map fst results @ (if fieldDefined ctx parentType v then [fst v] else [])"
          using serialCallback_keys[of ctx parentType sourceValue p results v t st acc1 now t1
              results1] c Inr Some s k
          by simp
        with eq Some s show ?thesis by blast
      qed
    qed
  next
    case (Promise pr)
    with Cons.prems(3) have pr: "pr = Fulfilled t results" by (cases pr) auto
    let ?acc1 = "Promise (settleWith t (fst ?r))"
    have eq: "promiseReduce ?cb (v # vs) acc now st = promiseReduce ?cb vs ?acc1 now (snd ?r)"
      using Promise pr by (simp add: Let_def)
    show ?thesis
    proof (cases "settledAt now ?acc1")
      case None
      then have "promiseReduce ?cb vs ?acc1 now (snd ?r) = (Inr ?acc1, snd ?r)"
        by (rule promiseReduce_unsettled)
      with eq Cons.prems(4,5) None show ?thesis by simp
    next
      case (Some s)
      obtain t1 results1 where s: "s = (t1, results1)" by fastforce
      from Some obtain acc1 where f: "fst ?r = Inr acc1"
        by (cases "fst ?r") auto
      with Some s have "settledAt t acc1 = Some (t1, results1)"
        by (simp add: settleWith_settledAt)
      then have "map fst results1 =
          map fst results @ (if fieldDefined ctx parentType v then [fst v] else [])"
        using serialCallback_keys[OF f _ k] by simp
      with eq Some s show ?thesis by blast
    qed
  qed
  then obtain acc1 t1 results1 where
    eq: "promiseReduce ?cb (v # vs) acc now st = promiseReduce ?cb vs acc1 now (snd ?r)"
    and s1: "settledAt now acc1 = Some (t1, results1)"
    and keys: "map fst results1 =
        map fst results @ (if fieldDefined ctx parentType v then [fst v] else [])"
    by blast
  have d: "distinct (map fst vs)" using Cons.prems(1) by simp
  have sub: "x = fst v \<or> x \<in> set (map fst results)" if "x \<in> set (map fst results1)" for x
  proof (cases "fieldDefined ctx parentType v")
    case True
    with keys have "map fst results1 = map fst results @ [fst v]" by simp
    with that have "x \<in> set (map fst results @ [fst v])" by (simp only:)
    then show ?thesis by (simp only: set_append set_simps Un_iff insert_iff empty_iff) blast
  next
    case False
    with keys have "map fst results1 = map fst results" by simp
    with that have "x \<in> set (map fst results)" by (simp only:)
    then show ?thesis ..
  qed
  have nv: "fst v \<notin> set (map fst vs)" using Cons.prems(1) by simp
  have dj: "x \<notin> set (map fst results)" if "x \<in> set (map fst (v # vs))" for x
    using Cons.prems(2) that unfolding disjoint_iff by (elim allE impE) assumption+
  have "x \<notin> set (map fst results1)" if a: "x \<in> set (map fst vs)" for x
  proof
    assume "x \<in> set (map fst results1)"
    then have "x = fst v \<or> x \<in> set (map fst results)" by (rule sub)
    then show False
    proof
      assume "x = fst v"
      with a nv show False by (simp only:)
    next
      assume b: "x \<in> set (map fst results)"
      from a have "x \<in> set (map fst (v # vs))" by simp
      then have "x \<notin> set (map fst results)" by (rule dj)
      then show False using b by (rule notE)
    qed
  qed
  then have disj: "set (map fst vs) \<inter> set (map fst results1) = {}"
    unfolding disjoint_iff by (intro allI impI)
  have r: "fst (promiseReduce ?cb vs acc1 now (snd ?r)) = Inr acc'"
    using Cons.prems(4) unfolding eq .
  have "map fst results' = map fst results1 @ map fst (filter (fieldDefined ctx parentType) vs)"
    using d disj s1 r Cons.prems(5) by (rule Cons.IH)
  with keys show ?case by (cases "fieldDefined ctx parentType v") simp_all
qed

lemma snd_executeFieldsSerially:
  "snd (executeFieldsSerially ctx parentType sourceValue p fieldMap now st) =
   snd (promiseReduce (serialCallback ctx parentType sourceValue p) fieldMap (Value []) now st)"
  by (simp add: executeFieldsSerially_def split: prod.splits sum.splits)

lemma fst_executeFieldsSerially:
  "fst (executeFieldsSerially ctx parentType sourceValue p fieldMap now st) =
   (case fst (promiseReduce (serialCallback ctx parentType sourceValue p) fieldMap (Value []) now st) of
      Inl e \<Rightarrow> Inl e
    | Inr results \<Rightarrow> Inr (mapPromiseOrValue CObject results))"
  by (simp add: executeFieldsSerially_def split: prod.splits sum.splits)

lemma pathToArray_root: "pathToArray (addPath None k t) = [k]"
  by (simp add: pathToArray_addPath pathToArrayOpt_def)

text \<open>
  C6. For a mutation whose collected root fields are \<open>earlier @ entry # later\<close>, with
  \<open>before\<close> the accumulated result of the fields in \<open>earlier\<close>: the operation is
  executed by \<open>executeFieldsSerially\<close>. When an earlier field threw, or the accumulated
  result was rejected or never settles, the run ends there and no resolver of \<open>entry\<close> or
  of a later field is called. When the accumulated result settles at time \<open>t\<close> (the call
  time for plain values, the settling time of the future otherwise), \<open>executeField\<close> is
  called for \<open>entry\<close> at \<open>t\<close> on the state the earlier fields left; every resolver call it
  makes, and every resolver call of the later fields, happens at \<open>t\<close> or later. The result
  of \<open>entry\<close> is entered under its response name into the results accumulated so far, at
  the time the field's own result settles; an undefined field leaves them unchanged. The
  keys of the final response object are the response names of the defined fields in
  collection order.
\<close>

theorem executeFieldsSerially_serial:
  assumes "operation op = MUTATION"
      and "getRootType (ctxSchema ctx) MUTATION = Some rootType"
      and "fst (collectFields (ctxSchema ctx) rootType (opSelectionSet op)) = earlier @ entry # later"
  shows
    "let callbackFn = serialCallback ctx rootType rootValue None;
         before = promiseReduce callbackFn earlier (Value []) now st;
         after = promiseReduce callbackFn (earlier @ [entry]) (Value []) now st;
         run = executeFieldsSerially ctx rootType rootValue None (earlier @ entry # later) now st;
         call = (\<lambda>t. executeField ctx rootType rootValue (snd entry)
                        (addPath None (Key (fst entry)) (Some rootType)) 0 t (snd before))
     in
       executeOperation ctx op rootValue now st =
         (case run of
            (Inl e, st1) \<Rightarrow> (Inl e, st1)
          | (Inr result, st1) \<Rightarrow>
              (case executeRootPatches ctx rootType rootValue
                      (snd (collectFields (ctxSchema ctx) rootType (opSelectionSet op))) now st1 of
                 (Inl e, st2) \<Rightarrow> (Inl e, st2)
               | (Inr u, st2) \<Rightarrow> (Inr result, st2))) \<and>
       (\<forall>e. fst before = Inl e \<longrightarrow> run = (Inl e, snd before)) \<and>
       (\<forall>acc. fst before = Inr acc \<and> settledAt now acc = None \<longrightarrow>
          run = (Inr (mapPromiseOrValue CObject acc), snd before)) \<and>
       (\<forall>acc t results. fst before = Inr acc \<and> settledAt now acc = Some (t, results) \<longrightarrow>
          now \<le> t \<and>
          snd after = snd (call t) \<and>
          eventsFrom [Key (fst entry)] t (events (snd before)) (events (snd after)) \<and>
          eventsFrom [] t (events (snd before)) (events (snd run)) \<and>
          (\<forall>e. fst (call t) = Inl e \<longrightarrow>
             fst after = Inl e \<or> fst after = Inr (Promise (Rejected t e))) \<and>
          (fst (call t) = Inr None \<longrightarrow>
             (\<exists>acc'. fst after = Inr acc' \<and> settledAt now acc' = Some (t, results))) \<and>
          (\<forall>r. fst (call t) = Inr (Some r) \<longrightarrow>
             (\<exists>acc'. fst after = Inr acc' \<and>
                settledAt now acc' =
                  map_option (\<lambda>(t', v). (t', objSet (fst entry) v results)) (settledAt t r)))) \<and>
       (\<forall>d t' kvs. fst run = Inr d \<and> settledAt now d = Some (t', CObject kvs) \<longrightarrow>
          map fst kvs = map fst (filter (fieldDefined ctx rootType) (earlier @ entry # later)))"
proof -
  let ?cb = "serialCallback ctx rootType rootValue None"
  let ?before = "promiseReduce ?cb earlier (Value []) now st"
  let ?after = "promiseReduce ?cb (earlier @ [entry]) (Value []) now st"
  let ?whole = "promiseReduce ?cb (earlier @ entry # later) (Value []) now st"
  let ?run = "executeFieldsSerially ctx rootType rootValue None (earlier @ entry # later) now st"
  let ?fp = "addPath None (Key (fst entry)) (Some rootType)"
  let ?call = "\<lambda>t. executeField ctx rootType rootValue (snd entry) ?fp 0 t (snd ?before)"
  obtain bx sb where b: "?before = (bx, sb)" by fastforce
  have whole: "?whole =
      (case ?before of
         (Inl e, st1) \<Rightarrow> (Inl e, st1)
       | (Inr acc1, st1) \<Rightarrow> promiseReduce ?cb (entry # later) acc1 now st1)"
    by (rule promiseReduce_append)
  have after: "?after =
      (case ?before of
         (Inl e, st1) \<Rightarrow> (Inl e, st1)
       | (Inr acc1, st1) \<Rightarrow> promiseReduce ?cb [entry] acc1 now st1)"
    by (rule promiseReduce_append)
  have cb: "completionFrom [] t0 s (?cb a v t s)" if "t0 \<le> t" for a v t0 t s
    using that by (intro serialCallback_from) simp_all
  have c1: "executeOperation ctx op rootValue now st =
         (case ?run of
            (Inl e, st1) \<Rightarrow> (Inl e, st1)
          | (Inr result, st1) \<Rightarrow>
              (case executeRootPatches ctx rootType rootValue
                      (snd (collectFields (ctxSchema ctx) rootType (opSelectionSet op))) now st1 of
                 (Inl e, st2) \<Rightarrow> (Inl e, st2)
               | (Inr u, st2) \<Rightarrow> (Inr result, st2)))"
    using assms by (simp add: executeOperation_def Let_def)
  have c2: "\<forall>e. fst ?before = Inl e \<longrightarrow> ?run = (Inl e, snd ?before)"
    using b whole by (auto simp: executeFieldsSerially_def)
  have c3: "\<forall>acc. fst ?before = Inr acc \<and> settledAt now acc = None \<longrightarrow>
      ?run = (Inr (mapPromiseOrValue CObject acc), snd ?before)"
  proof (intro allI impI)
    fix acc
    assume a: "fst ?before = Inr acc \<and> settledAt now acc = None"
    then have "promiseReduce ?cb (entry # later) acc now sb = (Inr acc, sb)"
      by (intro promiseReduce_unsettled) simp
    with a b whole show "?run = (Inr (mapPromiseOrValue CObject acc), snd ?before)"
      by (simp add: executeFieldsSerially_def)
  qed
  have c4: "\<forall>acc t results. fst ?before = Inr acc \<and> settledAt now acc = Some (t, results) \<longrightarrow>
          now \<le> t \<and>
          snd ?after = snd (?call t) \<and>
          eventsFrom [Key (fst entry)] t (events (snd ?before)) (events (snd ?after)) \<and>
          eventsFrom [] t (events (snd ?before)) (events (snd ?run)) \<and>
          (\<forall>e. fst (?call t) = Inl e \<longrightarrow>
             fst ?after = Inl e \<or> fst ?after = Inr (Promise (Rejected t e))) \<and>
          (fst (?call t) = Inr None \<longrightarrow>
             (\<exists>acc'. fst ?after = Inr acc' \<and> settledAt now acc' = Some (t, results))) \<and>
          (\<forall>r. fst (?call t) = Inr (Some r) \<longrightarrow>
             (\<exists>acc'. fst ?after = Inr acc' \<and>
                settledAt now acc' =
                  map_option (\<lambda>(t', v). (t', objSet (fst entry) v results)) (settledAt t r)))"
  proof (intro allI impI)
    fix acc t results
    assume a: "fst ?before = Inr acc \<and> settledAt now acc = Some (t, results)"
    with b have bx: "bx = Inr acc" and s: "settledAt now acc = Some (t, results)" by simp_all
    have "completionFrom [] now st ?before"
      by (rule promiseReduce_from[where a = "[]"]) (simp_all add: cb)
    with b bx have "settledFrom now acc" by (simp add: completionFrom_def)
    then have le: "now \<le> t" using s by (intro settledAt_from[of now acc now t results]) simp_all
    have aft: "?after = promiseReduce ?cb [entry] acc now sb"
      using after b bx by simp
    have sa: "snd ?after = snd (?call t)"
      unfolding aft using promiseReduce_single(1)[OF s, of ?cb entry sb] b
      by (simp add: snd_serialCallback)
    have "eventsFrom [Key (fst entry)] t (events sb) (events (snd (?call t)))"
      using serial_events(2)[of "[Key (fst entry)]" ?fp t t sb ctx rootType rootValue "snd entry" 0] b
      by (simp add: pathToArray_root)
    with sa b have e1: "eventsFrom [Key (fst entry)] t (events (snd ?before)) (events (snd ?after))"
      by simp
    have "completionFrom [] t sb (promiseReduce ?cb (entry # later) acc now sb)"
      using s by (rule promiseReduce_from[rotated]) (simp add: cb)
    moreover have "snd ?run = snd (promiseReduce ?cb (entry # later) acc now sb)"
      using whole b bx by (simp add: snd_executeFieldsSerially)
    ultimately have e2: "eventsFrom [] t (events (snd ?before)) (events (snd ?run))"
      using b by (simp add: completionFrom_def)
    have fa: "fst ?after =
        (case acc of
           Value x \<Rightarrow> fst (?cb results entry t sb)
         | Promise pr \<Rightarrow> Inr (Promise (settleWith t (fst (?cb results entry t sb)))))"
      unfolding aft by (rule promiseReduce_single(2)[OF s])
    have fc: "fst (?cb results entry t sb) =
        (case fst (?call t) of
           Inl e \<Rightarrow> Inl e
         | Inr None \<Rightarrow> Inr (Value results)
         | Inr (Some r) \<Rightarrow> Inr (mapPromiseOrValue (\<lambda>v. objSet (fst entry) v results) r))"
      using b by (simp add: fst_serialCallback)
    have tv: "t = now" if "acc = Value x" for x using s that by simp
    have a1: "\<forall>e. fst (?call t) = Inl e \<longrightarrow>
             fst ?after = Inl e \<or> fst ?after = Inr (Promise (Rejected t e))"
      unfolding fa fc by (cases acc) simp_all
    have a2: "fst (?call t) = Inr None \<longrightarrow>
             (\<exists>acc'. fst ?after = Inr acc' \<and> settledAt now acc' = Some (t, results))"
      unfolding fa fc using tv by (cases acc) auto
    have a3: "\<forall>r. fst (?call t) = Inr (Some r) \<longrightarrow>
             (\<exists>acc'. fst ?after = Inr acc' \<and>
                settledAt now acc' =
                  map_option (\<lambda>(t', v). (t', objSet (fst entry) v results)) (settledAt t r))"
      unfolding fa fc using tv
      by (cases acc) (auto simp: settledAt_mapPromiseOrValue settleWith_settledAt)
    show "now \<le> t \<and>
          snd ?after = snd (?call t) \<and>
          eventsFrom [Key (fst entry)] t (events (snd ?before)) (events (snd ?after)) \<and>
          eventsFrom [] t (events (snd ?before)) (events (snd ?run)) \<and>
          (\<forall>e. fst (?call t) = Inl e \<longrightarrow>
             fst ?after = Inl e \<or> fst ?after = Inr (Promise (Rejected t e))) \<and>
          (fst (?call t) = Inr None \<longrightarrow>
             (\<exists>acc'. fst ?after = Inr acc' \<and> settledAt now acc' = Some (t, results))) \<and>
          (\<forall>r. fst (?call t) = Inr (Some r) \<longrightarrow>
             (\<exists>acc'. fst ?after = Inr acc' \<and>
                settledAt now acc' =
                  map_option (\<lambda>(t', v). (t', objSet (fst entry) v results)) (settledAt t r)))"
      using le sa e1 e2 a1 a2 a3 by (intro conjI)
  qed
  have c5: "\<forall>d t' kvs. fst ?run = Inr d \<and> settledAt now d = Some (t', CObject kvs) \<longrightarrow>
          map fst kvs = map fst (filter (fieldDefined ctx rootType) (earlier @ entry # later))"
  proof (intro allI impI)
    fix d t' kvs
    assume a: "fst ?run = Inr d \<and> settledAt now d = Some (t', CObject kvs)"
    then obtain acc' where w: "fst ?whole = Inr acc'" and d: "d = mapPromiseOrValue CObject acc'"
      by (cases "fst ?whole") (auto simp: fst_executeFieldsSerially)
    with a have s: "settledAt now acc' = Some (t', kvs)"
      by (auto simp: settledAt_mapPromiseOrValue)
    have dist: "distinct (map fst (earlier @ entry # later))"
      using collectFields_distinct[of "ctxSchema ctx" rootType "opSelectionSet op"] assms(3)
      by simp
    have "map fst kvs = map fst ([] :: (string \<times> cval) list) @ map fst (filter (fieldDefined ctx rootType) (earlier @ entry # later))"
    proof (rule promiseReduce_keys[OF dist _ _ w s])
      show "set (map fst (earlier @ entry # later)) \<inter> set (map fst ([] :: (string \<times> cval) list)) = {}"
        by simp
      show "settledAt now (Value []) = Some (now, [])" by simp
    qed
    then show "map fst kvs = map fst (filter (fieldDefined ctx rootType) (earlier @ entry # later))"
      by simp
  qed
  show ?thesis
    unfolding Let_def using c1 c2 c3 c4 c5 by (intro conjI)
qed

theorem executeFieldsSerially_serial_witness:
  "operation serialMutation = MUTATION \<and>
   getRootType (ctxSchema (exampleContext mutationSchema)) MUTATION = Some ''Mutation'' \<and>
   fst (collectFields (ctxSchema (exampleContext mutationSchema)) ''Mutation''
          (opSelectionSet serialMutation)) =
     [(''first'', [fieldWith ''first'' []])] @
     (''second'', [fieldWith ''second'' []]) # [(''third'', [fieldWith ''third'' []])] \<and>
   fst (promiseReduce (serialCallback (exampleContext mutationSchema) ''Mutation'' RNull None)
          [(''first'', [fieldWith ''first'' []])] (Value []) 0 initialState) =
     Inr (Promise (Fulfilled 5 [(''first'', CLeaf (RPrim (JStr ''one'')))])) \<and>
   settledAt 0 (Promise (Fulfilled 5 [(''first'', CLeaf (RPrim (JStr ''one'')))])) =
     Some (5, [(''first'', CLeaf (RPrim (JStr ''one'')))]) \<and>
   events (snd (promiseReduce (serialCallback (exampleContext mutationSchema) ''Mutation'' RNull None)
          [(''first'', [fieldWith ''first'' []])] (Value []) 0 initialState)) =
     [ResolverCalled [Key ''first''] 0] \<and>
   events (snd (promiseReduce (serialCallback (exampleContext mutationSchema) ''Mutation'' RNull None)
          ([(''first'', [fieldWith ''first'' []])] @ [(''second'', [fieldWith ''second'' []])])
          (Value []) 0 initialState)) =
     [ResolverCalled [Key ''first''] 0, ResolverCalled [Key ''second''] 5] \<and>
   eventsFrom [Key ''second''] 5 [ResolverCalled [Key ''first''] 0]
     [ResolverCalled [Key ''first''] 0, ResolverCalled [Key ''second''] 5] \<and>
   executeOperation (exampleContext mutationSchema) serialMutation RNull 0 initialState =
     (Inr (Promise (Fulfilled 5
        (CObject [(''first'', CLeaf (RPrim (JStr ''one''))),
                  (''second'', CLeaf (RPrim (JStr ''two''))),
                  (''third'', CLeaf (RPrim (JStr ''three'')))]))),
      initialState
        \<lparr>events := [ResolverCalled [Key ''first''] 0, ResolverCalled [Key ''second''] 5,
                    ResolverCalled [Key ''third''] 5]\<rparr>) \<and>
   map fst (filter (fieldDefined (exampleContext mutationSchema) ''Mutation'')
     ([(''first'', [fieldWith ''first'' []])] @
      (''second'', [fieldWith ''second'' []]) # [(''third'', [fieldWith ''third'' []])])) =
     [''first'', ''second'', ''third'']"
  using executeFieldsSerially_serial[of serialMutation "exampleContext mutationSchema" "''Mutation''"
      "[(''first'', [fieldWith ''first'' []])]" "(''second'', [fieldWith ''second'' []])"
      "[(''third'', [fieldWith ''third'' []])]" RNull 0 initialState]
  by (simp add: serialMutation_def fieldDefined_def eventsFrom_def startsWith_def
        executor_defs example_defs executor_simps)


end
